theory Spec2Isabelle
  imports Main
begin

section \<open>Errors and the error-propagating bind\<close>

text \<open>
  The program signals every failure by a Python exception.  Two exception classes can
  occur: \<open>ValueError\<close> (raised by the program itself, by \<open>int()\<close> and by the
  \<open>date\<close> constructor) and \<open>OverflowError\<close> (raised by \<open>date + timedelta\<close> when
  the result leaves the range of \<open>datetime.date\<close>).  A \<open>ValueError\<close> carries its
  message; a computation that may raise returns \<open>error + 'a\<close>, with \<open>Inl\<close> the exception.
\<close>

datatype error = ValueError string | OverflowError

definition bind :: "error + 'a \<Rightarrow> ('a \<Rightarrow> error + 'b) \<Rightarrow> error + 'b" where
  "bind m f = (case m of Inl e \<Rightarrow> Inl e | Inr x \<Rightarrow> f x)"

section \<open>The part of \<open>datetime.date\<close> that the program uses\<close>

text \<open>
  A \<open>date\<close> is represented by its proleptic Gregorian ordinal (\<open>date.toordinal()\<close>,
  with 0001-01-01 as day 1); the dates of Python are exactly the ordinals from 1 to
  \<open>MAXORDINAL\<close> (9999-12-31).  Comparison of dates is comparison of ordinals, and
  \<open>(a - b).days\<close> is the difference of the ordinals.  The conversion functions follow
  the ones of CPython's \<open>datetime\<close> module. A \<open>timedelta(days=n)\<close> is the integer
  \<open>n\<close>: every day count the program builds is far below the limit of \<open>timedelta\<close>.
\<close>

type_synonym date = int

definition MINYEAR :: int where "MINYEAR = 1"
definition MAXYEAR :: int where "MAXYEAR = 9999"
definition MAXORDINAL :: int where "MAXORDINAL = 3652059"

definition valid_date :: "date \<Rightarrow> bool" where
  "valid_date d = (1 \<le> d \<and> d \<le> MAXORDINAL)"

definition is_leap :: "int \<Rightarrow> bool" where
  "is_leap y = (y mod 4 = 0 \<and> (y mod 100 \<noteq> 0 \<or> y mod 400 = 0))"

definition days_before_year :: "int \<Rightarrow> int" where
  "days_before_year yr = (let y = yr - 1 in y * 365 + y div 4 - y div 100 + y div 400)"

definition days_in_month :: "int \<Rightarrow> int \<Rightarrow> int" where
  "days_in_month y m =
     (if m = 2 \<and> is_leap y then 29
      else [31, 28, 31, 30, 31, 30, 31, 31, 30, 31, 30, 31] ! nat (m - 1))"

definition days_before_month :: "int \<Rightarrow> int \<Rightarrow> int" where
  "days_before_month y m =
     [0, 31, 59, 90, 120, 151, 181, 212, 243, 273, 304, 334] ! nat (m - 1)
       + (if m > 2 \<and> is_leap y then 1 else 0)"

definition ymd2ord :: "int \<Rightarrow> int \<Rightarrow> int \<Rightarrow> int" where
  "ymd2ord y m d = days_before_year y + days_before_month y m + d"

text \<open>The decimal digits of a natural number (\<open>str(n)\<close>).\<close>

fun str_nat :: "nat \<Rightarrow> string" where
  "str_nat n =
     (if n < 10 then [char_of (48 + n)]
      else str_nat (n div 10) @ [char_of (48 + n mod 10)])"

declare str_nat.simps [simp del]

definition str_int :: "int \<Rightarrow> string" where
  "str_int i = (if i < 0 then CHR ''-'' # str_nat (nat (- i)) else str_nat (nat i))"

text \<open>
  The constructor \<open>date(year, month, day)\<close> checks its fields and raises
  \<open>ValueError\<close> otherwise (the messages are those of the C implementation of CPython 3.12).
\<close>

definition date_ymd :: "int \<Rightarrow> int \<Rightarrow> int \<Rightarrow> error + date" where
  "date_ymd y m d =
     (if y < MINYEAR \<or> MAXYEAR < y
        then Inl (ValueError (''year '' @ str_int y @ '' is out of range''))
      else if m < 1 \<or> 12 < m then Inl (ValueError ''month must be in 1..12'')
      else if d < 1 \<or> days_in_month y m < d
        then Inl (ValueError ''day is out of range for month'')
      else Inr (ymd2ord y m d))"

text \<open>
  The attribute \<open>.year\<close>: the year component of \<open>ord2ymd\<close>, which splits the
  day number into 400-year, 100-year, 4-year and 1-year blocks.
\<close>

definition date_year :: "date \<Rightarrow> int" where
  "date_year d =
     (let n = d - 1;
          n400 = n div 146097; n = n mod 146097;
          n100 = n div 36524; n = n mod 36524;
          n4 = n div 1461; n = n mod 1461;
          n1 = n div 365;
          y = n400 * 400 + 1 + n100 * 100 + n4 * 4 + n1
      in if n1 = 4 \<or> n100 = 4 then y - 1 else y)"

text \<open>
  \<open>date + timedelta(days=n)\<close>: the result must again be a date, otherwise
  \<open>OverflowError\<close> is raised.
\<close>

definition date_add :: "date \<Rightarrow> int \<Rightarrow> error + date" where
  "date_add d n = (let r = d + n in if 0 < r \<and> r \<le> MAXORDINAL then Inr r else Inl OverflowError)"

section \<open>The AIRAC cycle calculator\<close>

record AIRACCycle =
  "identifier" :: string
  year :: int
  ordinal :: int
  effective_date :: date
  expiration_date :: date

text \<open>\<open>EPOCH = date(2020, 1, 2)\<close>, as its ordinal.\<close>

definition EPOCH :: date where
  "EPOCH = ymd2ord 2020 1 2"

definition CYCLE_DAYS :: int where
  "CYCLE_DAYS = 28"

text \<open>
  The format specification \<open>02d\<close> of an f-string: the decimal digits, padded with
  zeros to a width of two characters; the sign of a negative number counts for the width.
\<close>

definition fmt_02d :: "int \<Rightarrow> string" where
  "fmt_02d i =
     (if i < 0 then CHR ''-'' # str_nat (nat (- i))
      else if i < 10 then CHR ''0'' # str_nat (nat i)
      else str_nat (nat i))"

text \<open>
  \<open>AIRACCalculator.from_date\<close> (the operation \<open>cycle_for_date\<close> of the specification,
  as \<open>from_identifier\<close> is its \<open>cycle_for_identifier\<close>) for a given query date.  The source computes the start
  of the first cycle of a year twice, with the same statements, once for the year of the
  effective date and once for the year before: both are written out here.
\<close>

definition from_date :: "date \<Rightarrow> error + AIRACCycle" where
  "from_date query_date =
     (let days_since_epoch = query_date - EPOCH;
          cycles_since_epoch = days_since_epoch div CYCLE_DAYS
      in bind (date_add EPOCH (cycles_since_epoch * CYCLE_DAYS)) (\<lambda>effective_date.
         bind (date_add effective_date (CYCLE_DAYS - 1)) (\<lambda>expiration_date.
         let yr = date_year effective_date
         in bind (date_ymd yr 1 1) (\<lambda>year_start.
         let days_from_epoch_to_year_start = year_start - EPOCH;
             first_cycle_of_year_offset = days_from_epoch_to_year_start mod CYCLE_DAYS
         in bind (if first_cycle_of_year_offset > 0
                  then date_add year_start (CYCLE_DAYS - first_cycle_of_year_offset)
                  else Inr year_start) (\<lambda>first_cycle_start.
         bind (if effective_date < first_cycle_start
               then (let yr = date_year effective_date - 1
                     in bind (date_ymd yr 1 1) (\<lambda>year_start.
                        let days_from_epoch_to_year_start = year_start - EPOCH;
                            first_cycle_of_year_offset =
                              days_from_epoch_to_year_start mod CYCLE_DAYS
                        in bind (if first_cycle_of_year_offset > 0
                                 then date_add year_start
                                        (CYCLE_DAYS - first_cycle_of_year_offset)
                                 else Inr year_start) (\<lambda>first_cycle_start.
                           Inr (yr, first_cycle_start))))
               else Inr (yr, first_cycle_start)) (\<lambda>(yr, first_cycle_start).
         let ord = (effective_date - first_cycle_start) div CYCLE_DAYS + 1;
             ident = fmt_02d (yr mod 100) @ fmt_02d ord
         in Inr \<lparr> identifier = ident, year = yr, ordinal = ord,
                  effective_date = effective_date,
                  expiration_date = expiration_date \<rparr>))))))"

text \<open>
  The optional argument: \<open>from_date(None)\<close> asks the clock for today's date.  The
  clock is the parameter \<open>today\<close>; \<open>current\<close> is \<open>from_date(date.today())\<close>.
\<close>

definition from_date_opt :: "date \<Rightarrow> date option \<Rightarrow> error + AIRACCycle" where
  "from_date_opt today query_date =
     from_date (case query_date of None \<Rightarrow> today | Some d \<Rightarrow> d)"

definition current :: "date \<Rightarrow> error + AIRACCycle" where
  "current today = from_date today"

subsection \<open>Strings of digits\<close>

text \<open>
  A character is a code point below 256; strings with other characters are outside this
  model.  \<open>str.isdigit\<close> holds of the ASCII digits and of the superscript digits
  U+00B2, U+00B3 and U+00B9; \<open>int()\<close> accepts only the decimal digits among them and
  raises \<open>ValueError\<close> on the superscripts.  \<open>py_int\<close> is \<open>int(s)\<close> for the
  strings the program passes to it, which consist of characters that satisfy
  \<open>isdigit\<close>.
\<close>

definition isdecimal_char :: "char \<Rightarrow> bool" where
  "isdecimal_char c = (48 \<le> (of_char c :: nat) \<and> (of_char c :: nat) \<le> 57)"

definition isdigit_char :: "char \<Rightarrow> bool" where
  "isdigit_char c = (isdecimal_char c \<or> c \<in> {CHR 0xB2, CHR 0xB3, CHR 0xB9})"

definition isdigit :: "string \<Rightarrow> bool" where
  "isdigit s = (s \<noteq> [] \<and> list_all isdigit_char s)"

definition digit_value :: "char \<Rightarrow> int" where
  "digit_value c = int (of_char c) - 48"

definition int_literal_error :: "string \<Rightarrow> error" where
  "int_literal_error s =
     ValueError (''invalid literal for int() with base 10: '' @ [CHR 0x27] @ s @ [CHR 0x27])"

definition py_int :: "string \<Rightarrow> error + int" where
  "py_int s =
     (if s \<noteq> [] \<and> list_all isdecimal_char s
      then Inr (foldl (\<lambda>acc c. 10 * acc + digit_value c) 0 s)
      else Inl (int_literal_error s))"

subsection \<open>\<open>from_identifier\<close>, \<open>next\<close> and \<open>previous\<close>\<close>

definition invalid_identifier :: "string \<Rightarrow> error" where
  "invalid_identifier s = ValueError (''Invalid AIRAC identifier: '' @ s)"

definition invalid_ordinal :: "string \<Rightarrow> error" where
  "invalid_ordinal s = ValueError (''Invalid ordinal in AIRAC identifier: '' @ s)"

definition from_identifier :: "string \<Rightarrow> error + AIRACCycle" where
  "from_identifier ident =
     (if length ident \<noteq> 4 \<or> \<not> isdigit ident then Inl (invalid_identifier ident)
      else bind (py_int (take 2 ident)) (\<lambda>year_part.
           bind (py_int (drop 2 ident)) (\<lambda>ord.
           let yr = (if year_part \<ge> 64 then 1900 + year_part else 2000 + year_part)
           in if ord < 1 \<or> ord > 14 then Inl (invalid_ordinal ident)
              else bind (date_ymd (yr - 1) 12 31) (\<lambda>prev_year_end.
                   bind (from_date prev_year_end) (\<lambda>last_cycle_prev_year.
                   let cycles_to_add = ord
                   in bind (date_add (effective_date last_cycle_prev_year)
                              (cycles_to_add * CYCLE_DAYS)) (\<lambda>target_effective.
                      bind (from_date target_effective) (\<lambda>result.
                      if year result \<noteq> yr \<or> ordinal result \<noteq> ord
                      then Inl (invalid_identifier ident)
                      else Inr result)))))))"

text \<open>
  \<open>next\<close> and \<open>previous\<close> for a given cycle (\<open>next\<close> is a keyword of Isabelle, hence
  the name \<open>next_cycle\<close>), and with the optional argument, where \<open>None\<close> stands for
  the current cycle.
\<close>

definition next_cycle :: "AIRACCycle \<Rightarrow> error + AIRACCycle" where
  "next_cycle cycle =
     bind (date_add (effective_date cycle) CYCLE_DAYS) (\<lambda>next_date. from_date next_date)"

definition previous :: "AIRACCycle \<Rightarrow> error + AIRACCycle" where
  "previous cycle =
     bind (date_add (effective_date cycle) (- 1)) (\<lambda>prev_date. from_date prev_date)"

definition next_opt :: "date \<Rightarrow> AIRACCycle option \<Rightarrow> error + AIRACCycle" where
  "next_opt today cycle =
     bind (case cycle of None \<Rightarrow> current today | Some c \<Rightarrow> Inr c) next_cycle"

definition previous_opt :: "date \<Rightarrow> AIRACCycle option \<Rightarrow> error + AIRACCycle" where
  "previous_opt today cycle =
     bind (case cycle of None \<Rightarrow> current today | Some c \<Rightarrow> Inr c) previous"

section \<open>Notions used in the statements\<close>

text \<open>
  A cycle boundary is a date that lies a whole number of cycles from the epoch.
  \<open>first_cycle_start y\<close> is the value that the statements of \<open>from_date\<close> which
  follow the comment ``find the first cycle that starts in this year'' compute for the
  year \<open>y\<close> (without the range checks of the date arithmetic, which never fail for
  the years of \<open>datetime.date\<close>).
\<close>

definition cycle_boundary :: "date \<Rightarrow> bool" where
  "cycle_boundary n = ((n - EPOCH) mod CYCLE_DAYS = 0)"

definition first_cycle_start :: "int \<Rightarrow> date" where
  "first_cycle_start y =
     (let year_start = ymd2ord y 1 1;
          first_cycle_of_year_offset = (year_start - EPOCH) mod CYCLE_DAYS
      in if first_cycle_of_year_offset > 0
         then year_start + (CYCLE_DAYS - first_cycle_of_year_offset)
         else year_start)"

text \<open>The start of the 28-day block that contains the date \<open>d\<close>.\<close>

definition cycle_start :: "date \<Rightarrow> date" where
  "cycle_start d = EPOCH + (d - EPOCH) div CYCLE_DAYS * CYCLE_DAYS"

text \<open>
  \<open>cycle_year e\<close> is the year that \<open>from_date\<close> settles on for the effective date
  \<open>e\<close>, and \<open>cycle_at d\<close> is the cycle that \<open>from_date d\<close> returns when none of
  its date operations leaves the range of \<open>datetime.date\<close>.
\<close>

definition cycle_year :: "date \<Rightarrow> int" where
  "cycle_year e =
     (let y0 = date_year e in if e < first_cycle_start y0 then y0 - 1 else y0)"

definition cycle_at :: "date \<Rightarrow> AIRACCycle" where
  "cycle_at d =
     (let e = cycle_start d;
          yr = cycle_year e;
          ord = (e - first_cycle_start yr) div CYCLE_DAYS + 1
      in \<lparr> identifier = fmt_02d (yr mod 100) @ fmt_02d ord, year = yr, ordinal = ord,
           effective_date = e, expiration_date = e + (CYCLE_DAYS - 1) \<rparr>)"

text \<open>The century rule of \<open>from_identifier\<close> for the two-digit year.\<close>

definition century_year :: "int \<Rightarrow> int" where
  "century_year year_part = (if year_part \<ge> 64 then 1900 + year_part else 2000 + year_part)"

section \<open>Calendar arithmetic\<close>

lemma EPOCH_val: "EPOCH = 737426"
  by (simp add: EPOCH_def ymd2ord_def days_before_year_def days_before_month_def is_leap_def)

subsection \<open>Years and day numbers\<close>

text \<open>
  The number of days before a year grows by 365 or 366 from one year to the next, and
  \<open>date_year\<close> is the year whose days contain the given day number.
\<close>

lemma div_step:
  assumes "0 < (m::int)"
  shows "y div m = (y - 1) div m + (if y mod m = 0 then 1 else 0)"
proof (cases "y mod m = 0")
  case True
  have "y = m * (y div m) + y mod m" by simp
  with True have "y - 1 = m * (y div m - 1) + (m - 1)" by (simp add: algebra_simps)
  then have "(y - 1) div m = y div m - 1"
    using int_div_pos_eq[of "y - 1" m "y div m - 1" "m - 1"] assms by simp
  with True show ?thesis by simp
next
  case False
  have "0 \<le> y mod m" "y mod m < m" using assms by simp_all
  with False have r: "0 \<le> y mod m - 1" "y mod m - 1 < m" by simp_all
  have "y = m * (y div m) + y mod m" by simp
  then have "y - 1 = m * (y div m) + (y mod m - 1)" by simp
  then have "(y - 1) div m = y div m"
    using int_div_pos_eq[of "y - 1" m "y div m" "y mod m - 1"] r by simp
  with False show ?thesis by simp
qed

lemma mod400_100: "(y::int) mod 400 = 0 \<Longrightarrow> y mod 100 = 0"
proof -
  assume "y mod 400 = 0"
  then have "400 dvd y" by (simp add: dvd_eq_mod_eq_0)
  moreover have "(100::int) dvd 400" by simp
  ultimately have "100 dvd y" by (rule dvd_trans[rotated])
  then show ?thesis by (simp add: dvd_eq_mod_eq_0)
qed

lemma mod100_4: "(y::int) mod 100 = 0 \<Longrightarrow> y mod 4 = 0"
proof -
  assume "y mod 100 = 0"
  then have "100 dvd y" by (simp add: dvd_eq_mod_eq_0)
  moreover have "(4::int) dvd 100" by simp
  ultimately have "4 dvd y" by (rule dvd_trans[rotated])
  then show ?thesis by (simp add: dvd_eq_mod_eq_0)
qed

lemma dby_succ: "days_before_year (y + 1) = days_before_year y + (if is_leap y then 366 else 365)"
proof -
  define A where "A = (y - 1) div 4"
  define B where "B = (y - 1) div 100"
  define C where "C = (y - 1) div 400"
  define p where "p = (y mod 4 = 0)"
  define q where "q = (y mod 100 = 0)"
  define r where "r = (y mod 400 = 0)"
  have a: "y div 4 = A + (if p then 1 else 0)" unfolding A_def p_def by (rule div_step) simp
  have b: "y div 100 = B + (if q then 1 else 0)" unfolding B_def q_def by (rule div_step) simp
  have c: "y div 400 = C + (if r then 1 else 0)" unfolding C_def r_def by (rule div_step) simp
  have rq: "r \<Longrightarrow> q" unfolding r_def q_def by (rule mod400_100)
  have qp: "q \<Longrightarrow> p" unfolding q_def p_def by (rule mod100_4)
  have l: "is_leap y = (p \<and> (\<not> q \<or> r))" unfolding is_leap_def p_def q_def r_def by (rule refl)
  have 1: "days_before_year (y + 1) = y * 365 + y div 4 - y div 100 + y div 400"
    unfolding days_before_year_def Let_def by simp
  have 2: "days_before_year y = (y - 1) * 365 + A - B + C"
    unfolding days_before_year_def Let_def A_def B_def C_def by (rule refl)
  show ?thesis unfolding 1 2 a b c l using rq qp by (cases p; cases q; cases r; simp add: algebra_simps)
qed

lemma dby_blocks:
  assumes "0 \<le> c" "c \<le> 3" "0 \<le> f" "f \<le> 24" "0 \<le> k" "k \<le> 3"
  shows "days_before_year (400 * a + 100 * c + 4 * f + k + 1) = 146097 * a + 36524 * c + 1461 * f + 365 * k"
proof -
  let ?y = "400 * a + 100 * c + 4 * f + k"
  have d4: "?y div 4 = 100 * a + 25 * c + f" using assms by linarith
  have d100: "?y div 100 = 4 * a + c" using assms by linarith
  have d400: "?y div 400 = a" using assms by linarith
  show ?thesis unfolding days_before_year_def Let_def using d4 d100 d400 by simp
qed

lemma date_year_bounds:
  "days_before_year (date_year d) < d \<and> d \<le> days_before_year (date_year d + 1)"
proof -
  define n where "n = d - 1"
  define a where "a = n div 146097"
  define r where "r = n mod 146097"
  define c where "c = r div 36524"
  define s where "s = r mod 36524"
  define f where "f = s div 1461"
  define t where "t = s mod 1461"
  define k where "k = t div 365"
  define u where "u = t mod 365"
  have n: "n = 146097 * a + r" "0 \<le> r" "r < 146097" unfolding a_def r_def by simp_all
  have r: "r = 36524 * c + s" "0 \<le> s" "s < 36524" unfolding c_def s_def by simp_all
  have s: "s = 1461 * f + t" "0 \<le> t" "t < 1461" unfolding f_def t_def by simp_all
  have t: "t = 365 * k + u" "0 \<le> u" "u < 365" unfolding k_def u_def by simp_all
  have cb: "0 \<le> c" "c \<le> 4" using n r by linarith+
  have fb: "0 \<le> f" "f \<le> 24" using r s by linarith+
  have kb: "0 \<le> k" "k \<le> 4" using s t by linarith+
  have dy: "date_year d = (if k = 4 \<or> c = 4 then 400 * a + 100 * c + 4 * f + k
                           else 400 * a + 100 * c + 4 * f + k + 1)"
    unfolding date_year_def Let_def n_def[symmetric] a_def[symmetric] r_def[symmetric]
      c_def[symmetric] s_def[symmetric] f_def[symmetric] t_def[symmetric] k_def[symmetric]
    by (simp add: algebra_simps)
  have d: "d = n + 1" unfolding n_def by simp
  show ?thesis
  proof (cases "c = 4")
    case True
    with n r have s0: "s = 0" by linarith
    have f0: "f = 0" using s s0 by linarith
    have t0: "t = 0" using s s0 f0 by linarith
    have k0: "k = 0" using t t0 by linarith
    have y: "date_year d = 400 * a + 100 * 3 + 4 * 24 + 3 + 1" using dy True f0 k0 by simp
    have y1: "date_year d + 1 = 400 * (a + 1) + 100 * 0 + 4 * 0 + 0 + 1" using y by simp
    have "days_before_year (date_year d) = 146097 * a + 36524 * 3 + 1461 * 24 + 365 * 3"
      unfolding y by (rule dby_blocks) simp_all
    moreover have "days_before_year (date_year d + 1) = 146097 * (a + 1) + 36524 * 0 + 1461 * 0 + 365 * 0"
      unfolding y1 by (rule dby_blocks) simp_all
    ultimately show ?thesis using d n r True s0 by simp
  next
    case c3: False
    with cb have c3': "c \<le> 3" by simp
    show ?thesis
    proof (cases "k = 4")
      case True
      have u0: "u = 0" using s t True by linarith
      have t0: "t = 1460" using t True u0 by linarith
      have f23: "f \<le> 23" using r s t0 fb by linarith
      have y: "date_year d = 400 * a + 100 * c + 4 * f + 3 + 1" using dy True c3 by simp
      have y1: "date_year d + 1 = 400 * a + 100 * c + 4 * (f + 1) + 0 + 1" using y by simp
      have "days_before_year (date_year d) = 146097 * a + 36524 * c + 1461 * f + 365 * 3"
        unfolding y using cb c3' fb by (intro dby_blocks) simp_all
      moreover have "days_before_year (date_year d + 1) = 146097 * a + 36524 * c + 1461 * (f + 1) + 365 * 0"
        unfolding y1 using cb c3' fb f23 by (intro dby_blocks) simp_all
      ultimately show ?thesis using d n r s t0 by simp
    next
      case k3: False
      with kb have k3': "k \<le> 3" by simp
      have y: "date_year d = 400 * a + 100 * c + 4 * f + k + 1" using dy k3 c3 by simp
      have lo: "days_before_year (date_year d) = 146097 * a + 36524 * c + 1461 * f + 365 * k"
        unfolding y using cb c3' fb kb k3' by (intro dby_blocks) simp_all
      have hi: "d \<le> days_before_year (date_year d + 1)"
      proof -
        have "days_before_year (date_year d + 1) \<ge> days_before_year (date_year d) + 365"
          by (simp add: dby_succ)
        then show ?thesis using lo d n r s t by simp
      qed
      show ?thesis using lo hi d n r s t by simp
    qed
  qed
qed

lemma dby_mono_aux: "0 \<le> (k::int) \<Longrightarrow> days_before_year y + 365 * k \<le> days_before_year (y + k)"
proof (induction k rule: int_ge_induct)
  case base
  show ?case by simp
next
  case (step i)
  have "days_before_year (y + (i + 1)) = days_before_year ((y + i) + 1)" by (simp add: add.assoc)
  also have "\<dots> \<ge> days_before_year (y + i) + 365" by (simp add: dby_succ)
  finally show ?case using step by simp
qed

lemma dby_strict_mono: "y < y' \<Longrightarrow> days_before_year y < days_before_year y'"
  using dby_mono_aux[of "y' - y" y] by simp

lemma dby_mono: "y \<le> y' \<Longrightarrow> days_before_year y \<le> days_before_year y'"
  using dby_mono_aux[of "y' - y" y] by simp

lemma date_year_unique:
  assumes "days_before_year y < d" "d \<le> days_before_year (y + 1)"
  shows "date_year d = y"
proof (rule ccontr)
  assume ne: "date_year d \<noteq> y"
  have b: "days_before_year (date_year d) < d" "d \<le> days_before_year (date_year d + 1)"
    using date_year_bounds[of d] by simp_all
  show False
  proof (cases "date_year d < y")
    case True
    then have "days_before_year (date_year d + 1) \<le> days_before_year y" by (intro dby_mono) simp
    with b assms show False by simp
  next
    case False
    with ne have "days_before_year (y + 1) \<le> days_before_year (date_year d)" by (intro dby_mono) simp
    with b assms show False by simp
  qed
qed

lemma dby_1: "days_before_year 1 = 0" by (simp add: days_before_year_def)
lemma dby_10000: "days_before_year 10000 = 3652059" by (simp add: days_before_year_def)

lemma date_year_range:
  assumes "1 \<le> d" "d \<le> 3652059"
  shows "1 \<le> date_year d \<and> date_year d \<le> 9999"
proof -
  have b: "days_before_year (date_year d) < d" "d \<le> days_before_year (date_year d + 1)"
    using date_year_bounds[of d] by simp_all
  have "\<not> date_year d + 1 \<le> 1"
  proof
    assume "date_year d + 1 \<le> 1"
    then have "days_before_year (date_year d + 1) \<le> days_before_year 1" by (rule dby_mono)
    with b assms show False by (simp add: dby_1)
  qed
  moreover have "\<not> 10000 \<le> date_year d"
  proof
    assume "10000 \<le> date_year d"
    then have "days_before_year 10000 \<le> days_before_year (date_year d)" by (rule dby_mono)
    with b assms show False by (simp add: dby_10000)
  qed
  ultimately show ?thesis by simp
qed

lemma year_start_eq: "ymd2ord y 1 1 = days_before_year y + 1"
  by (simp add: ymd2ord_def days_before_month_def)

lemma year_end_eq: "ymd2ord (y - 1) 12 31 = days_before_year y"
  using dby_succ[of "y - 1"] by (simp add: ymd2ord_def days_before_month_def)

lemma date_ymd_jan1: "1 \<le> y \<Longrightarrow> y \<le> 9999 \<Longrightarrow> date_ymd y 1 1 = Inr (days_before_year y + 1)"
  by (simp add: date_ymd_def MINYEAR_def MAXYEAR_def days_in_month_def year_start_eq)

lemma date_ymd_dec31: "2 \<le> y \<Longrightarrow> y \<le> 10000 \<Longrightarrow> date_ymd (y - 1) 12 31 = Inr (days_before_year y)"
  using year_end_eq[of y] by (simp add: date_ymd_def MINYEAR_def MAXYEAR_def days_in_month_def)

subsection \<open>Cycle boundaries and the first cycle of a year\<close>

text \<open>
  Two boundaries are a multiple of 28 days apart; the first cycle start of a year is the
  earliest boundary from 1 January on.
\<close>

lemma fcs_bounds:
  "days_before_year y + 1 \<le> first_cycle_start y" "first_cycle_start y \<le> days_before_year y + 28"
  "cycle_boundary (first_cycle_start y)"
proof -
  define ys where "ys = days_before_year y + 1 - EPOCH"
  have f: "first_cycle_start y = (if ys mod 28 > 0 then ys + EPOCH + (28 - ys mod 28) else ys + EPOCH)"
    unfolding first_cycle_start_def Let_def year_start_eq CYCLE_DAYS_def ys_def by simp
  have m: "0 \<le> ys mod 28" "ys mod 28 < 28" by simp_all
  show "days_before_year y + 1 \<le> first_cycle_start y" unfolding f using m ys_def by auto
  show "first_cycle_start y \<le> days_before_year y + 28" unfolding f using m ys_def by auto
  define q where "q = ys div 28"
  define r where "r = ys mod 28"
  have "ys = 28 * q + r" unfolding q_def r_def by simp
  then have "ys + (28 - r) = 28 * (q + 1)" by simp
  moreover have "(28 * (q + 1)) mod (28::int) = 0" by (rule mod_mult_self1_is_0)
  ultimately have "(ys + (28 - r)) mod 28 = 0" by (simp only:)
  then have z: "(ys + (28 - ys mod 28)) mod 28 = 0" unfolding r_def .
  have "(first_cycle_start y - EPOCH) mod 28 = 0"
  proof (cases "ys mod 28 > 0")
    case True
    then have "first_cycle_start y - EPOCH = ys + (28 - ys mod 28)" unfolding f by simp
    then show ?thesis using z by (simp only:)
  next
    case False
    with m have "ys mod 28 = 0" by simp
    moreover from False have "first_cycle_start y - EPOCH = ys" unfolding f by simp
    ultimately show ?thesis by (simp only:)
  qed
  then show "cycle_boundary (first_cycle_start y)" by (simp add: cycle_boundary_def CYCLE_DAYS_def)
qed

lemma boundary_gap:
  "cycle_boundary a \<Longrightarrow> cycle_boundary b \<Longrightarrow> a < b \<Longrightarrow> a + 28 \<le> b"
proof -
  assume a: "cycle_boundary a" and b: "cycle_boundary b" and l: "a < b"
  from a have "28 dvd (a - EPOCH)" by (simp add: cycle_boundary_def CYCLE_DAYS_def dvd_eq_mod_eq_0)
  moreover from b have "28 dvd (b - EPOCH)" by (simp add: cycle_boundary_def CYCLE_DAYS_def dvd_eq_mod_eq_0)
  ultimately have "28 dvd ((b - EPOCH) - (a - EPOCH))" by (rule dvd_diff[rotated])
  then have "28 dvd (b - a)" by simp
  then obtain k where k: "b - a = 28 * k" by (auto simp: dvd_def)
  with l have "0 < k" by simp
  then have "1 \<le> k" by simp
  with k show ?thesis by simp
qed

lemma fcs_least:
  assumes "cycle_boundary n" "days_before_year y + 1 \<le> n"
  shows "first_cycle_start y \<le> n"
proof (rule ccontr)
  assume "\<not> first_cycle_start y \<le> n"
  then have "n + 28 \<le> first_cycle_start y" using boundary_gap[OF assms(1) fcs_bounds(3)[of y]] by simp
  with fcs_bounds(2)[of y] assms(2) show False by simp
qed

subsection \<open>The start of the cycle of a date\<close>

text \<open>
  The cycle start of a date is the latest boundary that is not after it.
\<close>

lemma bind_Inr: "bind (Inr x) f = f x" by (simp add: bind_def)
lemma bind_Inl: "bind (Inl e) f = Inl e" by (simp add: bind_def)

lemma cycle_start_props: "cycle_start d \<le> d" "d \<le> cycle_start d + 27" "cycle_boundary (cycle_start d)"
proof -
  define q where "q = (d - EPOCH) div 28"
  define r where "r = (d - EPOCH) mod 28"
  have d: "d - EPOCH = 28 * q + r" and r: "0 \<le> r" "r < 28" unfolding q_def r_def by simp_all
  have c: "cycle_start d = EPOCH + 28 * q" unfolding cycle_start_def CYCLE_DAYS_def q_def by simp
  show "cycle_start d \<le> d" "d \<le> cycle_start d + 27" using c d r by simp_all
  have "(28 * q) mod (28::int) = 0" by (rule mod_mult_self1_is_0)
  then show "cycle_boundary (cycle_start d)" unfolding cycle_boundary_def CYCLE_DAYS_def c by simp
qed

lemma cycle_start_greatest:
  assumes "cycle_boundary b" "b \<le> d"
  shows "b \<le> cycle_start d"
proof (rule ccontr)
  assume "\<not> b \<le> cycle_start d"
  then have "cycle_start d + 28 \<le> b" using boundary_gap[OF cycle_start_props(3)[of d] assms(1)] by simp
  with cycle_start_props(2)[of d] assms(2) show False by simp
qed

lemma cycle_start_boundary: "cycle_boundary b \<Longrightarrow> cycle_start b = b"
  using cycle_start_greatest[of b b] cycle_start_props(1)[of b] by simp

lemma cycle_start_same:
  assumes "cycle_boundary b" "b \<le> d" "d \<le> b + 27"
  shows "cycle_start d = b"
proof -
  have 1: "b \<le> cycle_start d" using assms by (intro cycle_start_greatest)
  have "\<not> b < cycle_start d"
  proof
    assume "b < cycle_start d"
    then have "b + 28 \<le> cycle_start d" using boundary_gap[OF assms(1) cycle_start_props(3)[of d]] by simp
    with cycle_start_props(1)[of d] assms(3) show False by simp
  qed
  with 1 show ?thesis by simp
qed

lemma boundary_18: "cycle_boundary 18"
  by (simp add: cycle_boundary_def EPOCH_val CYCLE_DAYS_def)

lemma boundary_last: "cycle_boundary 3652058"
  by (simp add: cycle_boundary_def EPOCH_val CYCLE_DAYS_def)

lemma cycle_start_range:
  assumes "18 \<le> d" "d \<le> 3652057"
  shows "18 \<le> cycle_start d" "cycle_start d \<le> 3652030"
proof -
  show "18 \<le> cycle_start d" using boundary_18 assms(1) by (rule cycle_start_greatest)
  have "cycle_start d < 3652058" using cycle_start_props(1)[of d] assms(2) by simp
  then have "cycle_start d + 28 \<le> 3652058" using boundary_gap[OF cycle_start_props(3)[of d] boundary_last] by simp
  then show "cycle_start d \<le> 3652030" by simp
qed

subsection \<open>What \<open>from_date\<close> computes\<close>

text \<open>
  Inside the range of \<open>datetime.date\<close> no operation of \<open>from_date\<close> fails and the
  result is \<open>cycle_at\<close>; outside, the date arithmetic overflows.
\<close>

lemma fcs_1: "first_cycle_start 1 = 18"
  by (simp add: first_cycle_start_def year_start_eq dby_1 EPOCH_val CYCLE_DAYS_def)

lemma dby_9999: "days_before_year 9999 = 3651694" by (simp add: days_before_year_def)

lemma fcs_code:
  assumes "1 \<le> y" "y \<le> 9999"
  shows "(if (days_before_year y + 1 - EPOCH) mod CYCLE_DAYS > 0
          then date_add (days_before_year y + 1) (CYCLE_DAYS - (days_before_year y + 1 - EPOCH) mod CYCLE_DAYS)
          else Inr (days_before_year y + 1)) = Inr (first_cycle_start y)"
proof -
  have lo: "0 \<le> days_before_year y" using dby_mono[OF assms(1)] by (simp add: dby_1)
  have hi: "days_before_year y \<le> 3651694" using dby_mono[OF assms(2)] by (simp add: dby_9999)
  define m where "m = (days_before_year y + 1 - EPOCH) mod 28"
  have m: "0 \<le> m" "m < 28" unfolding m_def by simp_all
  have f: "first_cycle_start y = (if m > 0 then days_before_year y + 1 + (28 - m) else days_before_year y + 1)"
    unfolding first_cycle_start_def Let_def year_start_eq CYCLE_DAYS_def m_def by (rule refl)
  have g: "(if (days_before_year y + 1 - EPOCH) mod CYCLE_DAYS > 0
          then date_add (days_before_year y + 1) (CYCLE_DAYS - (days_before_year y + 1 - EPOCH) mod CYCLE_DAYS)
          else Inr (days_before_year y + 1)) =
        (if m > 0 then date_add (days_before_year y + 1) (28 - m) else Inr (days_before_year y + 1))"
    unfolding CYCLE_DAYS_def m_def by (rule refl)
  have h: "(if m > 0 then date_add (days_before_year y + 1) (28 - m) else Inr (days_before_year y + 1))
      = Inr (if m > 0 then days_before_year y + 1 + (28 - m) else days_before_year y + 1)"
    unfolding date_add_def Let_def MAXORDINAL_def using lo hi m by simp
  show ?thesis by (simp only: g h f)
qed

lemma from_date_Inr:
  assumes "18 \<le> d" "d \<le> 3652057"
  shows "from_date d = Inr (cycle_at d)"
proof -
  define e where "e = cycle_start d"
  define y0 where "y0 = date_year e"
  have eb: "18 \<le> e" "e \<le> 3652030" unfolding e_def using assms by (rule cycle_start_range)+
  have yb: "1 \<le> y0" "y0 \<le> 9999" unfolding y0_def using date_year_range[of e] eb by simp_all
  have 1: "date_add EPOCH ((d - EPOCH) div CYCLE_DAYS * CYCLE_DAYS) = Inr e"
    unfolding date_add_def Let_def cycle_start_def[symmetric] e_def[symmetric] MAXORDINAL_def
    using eb by simp
  have 2: "date_add e (CYCLE_DAYS - 1) = Inr (e + (CYCLE_DAYS - 1))"
    unfolding date_add_def Let_def MAXORDINAL_def CYCLE_DAYS_def using eb by simp
  have 3: "date_ymd y0 1 1 = Inr (days_before_year y0 + 1)" using yb by (rule date_ymd_jan1)
  note 4 = fcs_code[OF yb]
  show ?thesis
  proof (cases "e < first_cycle_start y0")
    case True
    have "y0 \<noteq> 1" using True eb fcs_1 by auto
    with yb have yb': "1 \<le> y0 - 1" "y0 - 1 \<le> 9999" by simp_all
    have 5: "date_ymd (y0 - 1) 1 1 = Inr (days_before_year (y0 - 1) + 1)" using yb' by (rule date_ymd_jan1)
    note 6 = fcs_code[OF yb']
    show ?thesis
      unfolding from_date_def Let_def
      apply (simp only: 1 bind_Inr 2 y0_def[symmetric] 3 4 True if_True 5 6 prod.case)
      apply (simp only: cycle_at_def cycle_year_def Let_def e_def[symmetric] y0_def[symmetric] True if_True)
      done
  next
    case False
    show ?thesis
      unfolding from_date_def Let_def
      apply (simp only: 1 bind_Inr 2 y0_def[symmetric] 3 4 False if_False prod.case)
      apply (simp only: cycle_at_def cycle_year_def Let_def e_def[symmetric] y0_def[symmetric] False if_False)
      done
  qed
qed

lemma from_date_overflow:
  assumes "d < 18 \<or> 3652057 < d"
  shows "from_date d = Inl OverflowError"
proof -
  define e where "e = cycle_start d"
  have e: "e \<le> 0 \<or> 3652058 \<le> e"
  proof (cases "d < 18")
    case True
    then have "e < 18" unfolding e_def using cycle_start_props(1)[of d] by simp
    then have "e + 28 \<le> 18" unfolding e_def using boundary_gap[OF cycle_start_props(3)[of d] boundary_18] by simp
    then show ?thesis by simp
  next
    case False
    with assms have "3652058 \<le> d" by simp
    then have "3652058 \<le> e" unfolding e_def using boundary_last by (intro cycle_start_greatest)
    then show ?thesis by simp
  qed
  have 1: "date_add EPOCH ((d - EPOCH) div CYCLE_DAYS * CYCLE_DAYS) = (if 0 < e \<and> e \<le> MAXORDINAL then Inr e else Inl OverflowError)"
    unfolding date_add_def Let_def cycle_start_def[symmetric] e_def[symmetric] by (rule refl)
  show ?thesis
  proof (cases "0 < e \<and> e \<le> MAXORDINAL")
    case True
    with e have "MAXORDINAL < e + 27" by (simp add: MAXORDINAL_def)
    then have 2: "date_add e (CYCLE_DAYS - 1) = Inl OverflowError"
      unfolding date_add_def Let_def CYCLE_DAYS_def by simp
    show ?thesis unfolding from_date_def Let_def by (simp only: 1 True simp_thms if_True bind_Inr 2 bind_Inl)
  next
    case False
    show ?thesis unfolding from_date_def Let_def by (simp only: 1 False if_False bind_Inl)
  qed
qed

subsection \<open>The year and the ordinal of a cycle\<close>

text \<open>
  The year of a cycle is the only year whose first cycle start is at or before the
  effective date while the first cycle start of the next year is after it.
\<close>

lemma dby_succ_ge: "days_before_year y + 365 \<le> days_before_year (y + 1)"
  by (simp add: dby_succ)

lemma dby_succ_le: "days_before_year (y + 1) \<le> days_before_year y + 366"
  by (simp add: dby_succ)

lemma fcs_strict_mono_step: "first_cycle_start y < first_cycle_start (y + 1)"
proof -
  have "first_cycle_start y \<le> days_before_year y + 28" by (rule fcs_bounds)
  also have "\<dots> < days_before_year (y + 1) + 1" using dby_succ_ge[of y] by simp
  also have "\<dots> \<le> first_cycle_start (y + 1)" by (rule fcs_bounds)
  finally show ?thesis .
qed

lemma cycle_year_rule:
  "first_cycle_start (cycle_year e) \<le> e \<and> e < first_cycle_start (cycle_year e + 1)"
proof -
  define y0 where "y0 = date_year e"
  have b: "days_before_year y0 < e" "e \<le> days_before_year (y0 + 1)"
    unfolding y0_def using date_year_bounds[of e] by simp_all
  show ?thesis
  proof (cases "e < first_cycle_start y0")
    case True
    then have cy: "cycle_year e = y0 - 1" by (simp add: cycle_year_def y0_def[symmetric])
    have "first_cycle_start (y0 - 1) \<le> days_before_year (y0 - 1) + 28" by (rule fcs_bounds)
    also have "\<dots> \<le> days_before_year y0" using dby_succ_ge[of "y0 - 1"] by simp
    finally have "first_cycle_start (y0 - 1) \<le> e" using b by simp
    then show ?thesis using True cy by simp
  next
    case False
    then have cy: "cycle_year e = y0" by (simp add: cycle_year_def y0_def[symmetric])
    have "days_before_year (y0 + 1) + 1 \<le> first_cycle_start (y0 + 1)" by (rule fcs_bounds)
    then show ?thesis using False cy b by simp
  qed
qed

lemma cycle_year_unique:
  assumes "first_cycle_start y \<le> e" "e < first_cycle_start (y + 1)"
  shows "cycle_year e = y"
proof -
  have lo: "days_before_year y < e" using fcs_bounds(1)[of y] assms(1) by simp
  show ?thesis
  proof (cases "e \<le> days_before_year (y + 1)")
    case True
    with lo have "date_year e = y" by (intro date_year_unique)
    then show ?thesis using assms(1) by (simp add: cycle_year_def)
  next
    case False
    have "first_cycle_start (y + 1) \<le> days_before_year (y + 1) + 28" by (rule fcs_bounds)
    also have "\<dots> \<le> days_before_year (y + 1 + 1)" using dby_succ_ge[of "y + 1"] by simp
    finally have "e \<le> days_before_year (y + 1 + 1)" using assms(2) by simp
    with False have "date_year e = y + 1" by (intro date_year_unique) simp_all
    then show ?thesis using assms(2) by (simp add: cycle_year_def)
  qed
qed

lemma boundary_diff:
  assumes "cycle_boundary a" "cycle_boundary b"
  shows "\<exists>k. b - a = 28 * k"
proof -
  from assms(1) have "28 dvd (a - EPOCH)" by (simp add: cycle_boundary_def CYCLE_DAYS_def dvd_eq_mod_eq_0)
  moreover from assms(2) have "28 dvd (b - EPOCH)" by (simp add: cycle_boundary_def CYCLE_DAYS_def dvd_eq_mod_eq_0)
  ultimately have "28 dvd ((b - EPOCH) - (a - EPOCH))" by (rule dvd_diff[rotated])
  then have "28 dvd (b - a)" by simp
  then show ?thesis by (auto simp: dvd_def)
qed

lemma boundary_shift: "cycle_boundary a \<Longrightarrow> cycle_boundary (a + 28 * k)"
proof -
  assume "cycle_boundary a"
  then have "28 dvd (a - EPOCH)" by (simp add: cycle_boundary_def CYCLE_DAYS_def dvd_eq_mod_eq_0)
  then have "28 dvd (a - EPOCH + 28 * k)" by simp
  moreover have "a + 28 * k - EPOCH = a - EPOCH + 28 * k" by simp
  ultimately have "28 dvd (a + 28 * k - EPOCH)" by (simp only:)
  then show ?thesis by (simp add: cycle_boundary_def CYCLE_DAYS_def dvd_eq_mod_eq_0)
qed

lemma ordinal_props:
  assumes "cycle_boundary e"
  defines "k \<equiv> (e - first_cycle_start (cycle_year e)) div 28 + 1"
  shows "1 \<le> k" "k \<le> 14" "e = first_cycle_start (cycle_year e) + 28 * (k - 1)"
proof -
  define f where "f = first_cycle_start (cycle_year e)"
  define g where "g = first_cycle_start (cycle_year e + 1)"
  have fe: "f \<le> e" "e < g" unfolding f_def g_def using cycle_year_rule[of e] by simp_all
  have bf: "cycle_boundary f" "cycle_boundary g" unfolding f_def g_def by (rule fcs_bounds)+
  obtain j where j: "e - f = 28 * j" using boundary_diff[OF bf(1) assms(1)] by auto
  have kj: "k = j + 1" unfolding k_def f_def[symmetric] j by simp
  have j0: "0 \<le> j" using fe j by simp
  have "e + 28 \<le> g" using boundary_gap[OF assms(1) bf(2)] fe by simp
  moreover have "g \<le> days_before_year (cycle_year e + 1) + 28" unfolding g_def by (rule fcs_bounds)
  moreover have "days_before_year (cycle_year e + 1) \<le> days_before_year (cycle_year e) + 366"
    by (rule dby_succ_le)
  moreover have "days_before_year (cycle_year e) + 1 \<le> f" unfolding f_def by (rule fcs_bounds)
  ultimately have "e - f \<le> 365" by simp
  with j have "j \<le> 13" by simp
  show "1 \<le> k" using kj j0 by simp
  show "k \<le> 14" using kj \<open>j \<le> 13\<close> by simp
  show "e = first_cycle_start (cycle_year e) + 28 * (k - 1)" using kj j by (simp add: f_def)
qed

subsection \<open>Results of the operations\<close>

text \<open>
  Every cycle that an operation returns is a result of \<open>from_date\<close>.
\<close>

lemma from_date_InrD:
  assumes "from_date d = Inr c"
  shows "18 \<le> d" "d \<le> 3652057" "c = cycle_at d"
proof -
  have r: "18 \<le> d \<and> d \<le> 3652057"
  proof (rule ccontr)
    assume "\<not> (18 \<le> d \<and> d \<le> 3652057)"
    then have "d < 18 \<or> 3652057 < d" by auto
    then have "from_date d = Inl OverflowError" by (rule from_date_overflow)
    with assms show False by simp
  qed
  then show "18 \<le> d" "d \<le> 3652057" by simp_all
  from r have "from_date d = Inr (cycle_at d)" by (intro from_date_Inr) simp_all
  with assms show "c = cycle_at d" by simp
qed

lemma cycle_at_sel:
  "effective_date (cycle_at d) = cycle_start d"
  "expiration_date (cycle_at d) = cycle_start d + 27"
  "year (cycle_at d) = cycle_year (cycle_start d)"
  "ordinal (cycle_at d) = (cycle_start d - first_cycle_start (cycle_year (cycle_start d))) div 28 + 1"
  "identifier (cycle_at d) = fmt_02d (year (cycle_at d) mod 100) @ fmt_02d (ordinal (cycle_at d))"
  by (simp_all add: cycle_at_def Let_def CYCLE_DAYS_def)

lemma cycle_at_cycle_start: "cycle_at (cycle_start d) = cycle_at d"
  using cycle_start_boundary[OF cycle_start_props(3)[of d]] by (simp add: cycle_at_def)

lemma bind_eq_Inr: "bind m f = Inr y \<Longrightarrow> \<exists>x. m = Inr x \<and> f x = Inr y"
  by (cases m) (simp_all add: bind_def)

lemma date_add_Inr: "date_add d n = Inr r \<Longrightarrow> r = d + n \<and> 1 \<le> r \<and> r \<le> 3652059"
  by (auto simp: date_add_def Let_def MAXORDINAL_def split: if_splits)

lemma from_identifier_InrD:
  assumes "from_identifier s = Inr c"
  shows "\<exists>yp k p l t. length s = 4 \<and> isdigit s \<and> py_int (take 2 s) = Inr yp \<and>
           py_int (drop 2 s) = Inr k \<and> 1 \<le> k \<and> k \<le> 14 \<and>
           date_ymd (century_year yp - 1) 12 31 = Inr p \<and> from_date p = Inr l \<and>
           date_add (effective_date l) (k * CYCLE_DAYS) = Inr t \<and> from_date t = Inr c \<and>
           year c = century_year yp \<and> ordinal c = k"
  using assms unfolding from_identifier_def Let_def century_year_def[symmetric]
  by (auto dest!: bind_eq_Inr split: if_splits)

lemma from_identifier_result:
  assumes "from_identifier s = Inr c"
  shows "\<exists>d. from_date d = Inr c"
  using from_identifier_InrD[OF assms] by blast

lemma next_cycle_InrD:
  assumes "next_cycle c0 = Inr c"
  shows "from_date (effective_date c0 + 28) = Inr c"
  using assms unfolding next_cycle_def CYCLE_DAYS_def
  by (auto dest!: bind_eq_Inr date_add_Inr)

lemma previous_cycle_InrD:
  assumes "previous c0 = Inr c"
  shows "from_date (effective_date c0 - 1) = Inr c"
  using assms unfolding previous_def
  by (auto dest!: bind_eq_Inr date_add_Inr)

lemma d18: "ymd2ord 1 1 18 = 18" by code_simp
lemma dlast: "ymd2ord 9999 12 29 = 3652057" by code_simp

lemma cycle_at_cong: "cycle_start d = cycle_start d' \<Longrightarrow> cycle_at d = cycle_at d'"
  by (simp add: cycle_at_def)

lemma from_date_expiration:
  assumes "from_date d = Inr c"
  shows "date_add (effective_date c) 27 = Inr (expiration_date c)"
proof -
  note D = from_date_InrD[OF assms]
  have "18 \<le> cycle_start d" "cycle_start d \<le> 3652030" using D(1,2) by (rule cycle_start_range)+
  then show ?thesis unfolding D(3) cycle_at_sel date_add_def Let_def MAXORDINAL_def by simp
qed

lemma boundary_minus: "cycle_boundary a \<Longrightarrow> cycle_boundary (a - 28)"
  using boundary_shift[of a "- 1"] by simp

lemma boundary_plus: "cycle_boundary a \<Longrightarrow> cycle_boundary (a + 28)"
  using boundary_shift[of a 1] by simp

lemma next_cycle_eq:
  assumes "from_date d = Inr c"
  shows "next_cycle c = (if d \<le> 3652029 then Inr (cycle_at (effective_date c + 28)) else Inl OverflowError)"
proof -
  note D = from_date_InrD[OF assms]
  define e where "e = cycle_start d"
  have ec: "effective_date c = e" unfolding D(3) e_def by (simp add: cycle_at_sel)
  have eb: "18 \<le> e" "e \<le> 3652030" unfolding e_def using D(1,2) by (rule cycle_start_range)+
  have be: "cycle_boundary e" unfolding e_def by (rule cycle_start_props)
  have ed: "e \<le> d" "d \<le> e + 27" unfolding e_def by (rule cycle_start_props)+
  have 1: "date_add e CYCLE_DAYS = Inr (e + 28)"
    unfolding date_add_def Let_def MAXORDINAL_def CYCLE_DAYS_def using eb by simp
  show ?thesis
  proof (cases "d \<le> 3652029")
    case True
    have "cycle_boundary 3652030" using boundary_minus[OF boundary_last] by simp
    moreover have "e < 3652030" using ed True by simp
    ultimately have "e + 28 \<le> 3652030" using boundary_gap[OF be] by simp
    then have "from_date (e + 28) = Inr (cycle_at (e + 28))" using eb by (intro from_date_Inr) simp_all
    then show ?thesis unfolding next_cycle_def ec 1 bind_Inr using True by simp
  next
    case False
    then have "3652030 \<le> d" by simp
    then have "3652030 \<le> e" unfolding e_def using boundary_minus[OF boundary_last]
      by (intro cycle_start_greatest) simp_all
    then have "from_date (e + 28) = Inl OverflowError" by (intro from_date_overflow) simp
    then show ?thesis unfolding next_cycle_def ec 1 bind_Inr using False by simp
  qed
qed

lemma previous_cycle_eq:
  assumes "from_date d = Inr c"
  shows "previous c = (if 46 \<le> d then Inr (cycle_at (effective_date c - 1)) else Inl OverflowError)"
proof -
  note D = from_date_InrD[OF assms]
  define e where "e = cycle_start d"
  have ec: "effective_date c = e" unfolding D(3) e_def by (simp add: cycle_at_sel)
  have eb: "18 \<le> e" "e \<le> 3652030" unfolding e_def using D(1,2) by (rule cycle_start_range)+
  have be: "cycle_boundary e" unfolding e_def by (rule cycle_start_props)
  have ed: "e \<le> d" "d \<le> e + 27" unfolding e_def by (rule cycle_start_props)+
  have 1: "date_add e (- 1) = Inr (e - 1)"
    unfolding date_add_def Let_def MAXORDINAL_def using eb by simp
  show ?thesis
  proof (cases "46 \<le> d")
    case True
    have "cycle_boundary 46" using boundary_plus[OF boundary_18] by simp
    then have "46 \<le> e" unfolding e_def using True by (intro cycle_start_greatest)
    then have "from_date (e - 1) = Inr (cycle_at (e - 1))" using eb by (intro from_date_Inr) simp_all
    then show ?thesis unfolding previous_def ec 1 bind_Inr using True by simp
  next
    case False
    then have "e < 46" using ed by simp
    then have "e + 28 \<le> 46" using boundary_gap[OF be boundary_plus[OF boundary_18]] by simp
    then have "from_date (e - 1) = Inl OverflowError" by (intro from_date_overflow) simp
    then show ?thesis unfolding previous_def ec 1 bind_Inr using False by simp
  qed
qed

lemma cycle_start_plus: "cycle_start (cycle_start d + 28) = cycle_start d + 28"
  by (intro cycle_start_boundary boundary_plus cycle_start_props)

lemma cycle_start_pred: "cycle_start (cycle_start d - 1) = cycle_start d - 28"
  by (intro cycle_start_same boundary_minus cycle_start_props) simp_all

lemma cycle_start_last: "cycle_start (cycle_start d + 27) = cycle_start d"
  by (intro cycle_start_same cycle_start_props) simp_all

lemma d_dec1: "ymd2ord 9999 12 1 = 3652029" by code_simp
lemma d_feb15: "ymd2ord 1 2 15 = 46" by code_simp

lemma next_cycle_fields:
  assumes "from_date d = Inr c" "next_cycle c = Inr c'"
  shows "effective_date c' = effective_date c + 28" "c' = cycle_at (effective_date c + 28)" "d \<le> 3652029"
proof -
  note D = from_date_InrD[OF assms(1)]
  from next_cycle_eq[OF assms(1)] assms(2) show 1: "d \<le> 3652029" by (simp split: if_splits)
  with next_cycle_eq[OF assms(1)] assms(2) show 2: "c' = cycle_at (effective_date c + 28)" by simp
  show "effective_date c' = effective_date c + 28"
    unfolding 2 D(3) by (simp add: cycle_at_sel cycle_start_plus)
qed

lemma previous_cycle_fields:
  assumes "from_date d = Inr c" "previous c = Inr c'"
  shows "effective_date c' = effective_date c - 28" "c' = cycle_at (effective_date c - 1)" "46 \<le> d"
proof -
  note D = from_date_InrD[OF assms(1)]
  from previous_cycle_eq[OF assms(1)] assms(2) show 1: "46 \<le> d" by (simp split: if_splits)
  with previous_cycle_eq[OF assms(1)] assms(2) show 2: "c' = cycle_at (effective_date c - 1)" by simp
  show "effective_date c' = effective_date c - 28"
    unfolding 2 D(3) by (simp add: cycle_at_sel cycle_start_pred)
qed

lemma contiguous:
  assumes "from_date d = Inr c" "next_cycle c = Inr c'"
  shows "date_add (expiration_date c) 1 = Inr (effective_date c')"
proof -
  note D = from_date_InrD[OF assms(1)]
  have eb: "18 \<le> cycle_start d" "cycle_start d \<le> 3652030" using D(1,2) by (rule cycle_start_range)+
  have "effective_date c' = cycle_start d + 28"
    using next_cycle_fields(1)[OF assms] by (simp add: D(3) cycle_at_sel)
  moreover have "expiration_date c = cycle_start d + 27" by (simp add: D(3) cycle_at_sel)
  ultimately show ?thesis using eb by (simp add: date_add_def Let_def MAXORDINAL_def)
qed

lemma previous_of_next:
  assumes "from_date d = Inr c" "next_cycle c = Inr c'"
  shows "previous c' = Inr c"
proof -
  note D = from_date_InrD[OF assms(1)]
  note N = next_cycle_fields[OF assms]
  have ec: "effective_date c = cycle_start d" by (simp add: D(3) cycle_at_sel)
  have eb: "18 \<le> cycle_start d" "cycle_start d \<le> 3652030" using D(1,2) by (rule cycle_start_range)+
  have f': "from_date (cycle_start d + 28) = Inr c'"
    using next_cycle_InrD[OF assms(2)] by (simp add: ec)
  have "previous c' = Inr (cycle_at (effective_date c' - 1))"
    using previous_cycle_eq[OF f'] eb by simp
  also have "effective_date c' - 1 = cycle_start d + 27" using N(1) ec by simp
  also have "cycle_at (cycle_start d + 27) = cycle_at d"
    by (rule cycle_at_cong) (rule cycle_start_last)
  finally show ?thesis by (simp add: D(3))
qed

lemma next_of_previous:
  assumes "from_date d = Inr c" "previous c = Inr c'"
  shows "next_cycle c' = Inr c"
proof -
  note D = from_date_InrD[OF assms(1)]
  note P = previous_cycle_fields[OF assms]
  have ec: "effective_date c = cycle_start d" by (simp add: D(3) cycle_at_sel)
  have eb: "18 \<le> cycle_start d" "cycle_start d \<le> 3652030" using D(1,2) by (rule cycle_start_range)+
  have f': "from_date (cycle_start d - 1) = Inr c'"
    using previous_cycle_InrD[OF assms(2)] by (simp add: ec)
  have "next_cycle c' = Inr (cycle_at (effective_date c' + 28))"
    using next_cycle_eq[OF f'] eb by simp
  also have "effective_date c' + 28 = cycle_start d" using P(1) ec by simp
  also have "cycle_at (cycle_start d) = cycle_at d" by (rule cycle_at_cycle_start)
  finally show ?thesis by (simp add: D(3))
qed

lemma from_date_boundary:
  assumes "from_date d = Inr c"
  shows "cycle_boundary (effective_date c)"
  unfolding from_date_InrD(3)[OF assms] cycle_at_sel by (rule cycle_start_props)

lemma from_date_year_rule:
  assumes "from_date d = Inr c"
  shows "first_cycle_start (year c) \<le> effective_date c"
    "effective_date c < first_cycle_start (year c + 1)"
    "ordinal c = (effective_date c - first_cycle_start (year c)) div 28 + 1"
    "1 \<le> ordinal c" "ordinal c \<le> 14"
    "effective_date c = first_cycle_start (year c) + 28 * (ordinal c - 1)"
proof -
  note D = from_date_InrD[OF assms]
  define e where "e = cycle_start d"
  have s: "effective_date c = e" "year c = cycle_year e"
    "ordinal c = (e - first_cycle_start (cycle_year e)) div 28 + 1"
    unfolding D(3) e_def by (simp_all add: cycle_at_sel)
  have be: "cycle_boundary e" unfolding e_def by (rule cycle_start_props)
  show "first_cycle_start (year c) \<le> effective_date c"
    "effective_date c < first_cycle_start (year c + 1)"
    unfolding s using cycle_year_rule[of e] by simp_all
  show "ordinal c = (effective_date c - first_cycle_start (year c)) div 28 + 1"
    unfolding s by (rule refl)
  show "1 \<le> ordinal c" unfolding s by (rule ordinal_props(1)[OF be])
  show "ordinal c \<le> 14" unfolding s by (rule ordinal_props(2)[OF be])
  show "effective_date c = first_cycle_start (year c) + 28 * (ordinal c - 1)"
    unfolding s by (rule ordinal_props(3)[OF be])
qed

lemma jan1_not_boundary:
  assumes "from_date (ymd2ord y 1 1) = Inr c" "\<not> cycle_boundary (ymd2ord y 1 1)"
  shows "year c = y - 1" "effective_date c + 28 = first_cycle_start y"
proof -
  define j where "j = ymd2ord y 1 1"
  have jd: "j = days_before_year y + 1" unfolding j_def by (rule year_start_eq)
  note D = from_date_InrD[OF assms(1)]
  define e where "e = cycle_start j"
  have ec: "effective_date c = e" "year c = cycle_year e" unfolding D(3) e_def j_def by (simp_all add: cycle_at_sel)
  have be: "cycle_boundary e" unfolding e_def by (rule cycle_start_props)
  have ej: "e \<le> j" "j \<le> e + 27" unfolding e_def by (rule cycle_start_props)+
  have "e \<noteq> j" using be assms(2) j_def by auto
  with ej have lt: "e < j" by simp
  have "first_cycle_start y \<le> e + 28" using boundary_plus[OF be] ej jd by (intro fcs_least) simp_all
  moreover have "e < first_cycle_start y" using lt fcs_bounds(1)[of y] jd by simp
  then have "e + 28 \<le> first_cycle_start y" using boundary_gap[OF be fcs_bounds(3)] by simp
  ultimately show "effective_date c + 28 = first_cycle_start y" unfolding ec by simp
  have "first_cycle_start (y - 1) \<le> days_before_year (y - 1) + 28" by (rule fcs_bounds)
  also have "\<dots> \<le> days_before_year y - 337" using dby_succ_ge[of "y - 1"] by simp
  also have "\<dots> \<le> e" using ej jd by simp
  finally have "first_cycle_start (y - 1) \<le> e" .
  moreover have "e < first_cycle_start (y - 1 + 1)" using \<open>e < first_cycle_start y\<close> by simp
  ultimately have "cycle_year e = y - 1" by (rule cycle_year_unique)
  then show "year c = y - 1" unfolding ec .
qed

subsection \<open>Identifiers\<close>

text \<open>
  An identifier consists of four decimal digits, which \<open>int()\<close> reads back.
\<close>

lemma of_char_digit: "k < 10 \<Longrightarrow> (of_char (char_of (48 + k :: nat)) :: nat) = 48 + k"
  by simp

lemma isdecimal_digit: "k < 10 \<Longrightarrow> isdecimal_char (char_of (48 + k :: nat))"
  by (simp add: isdecimal_char_def)

lemma digit_value_digit: "k < 10 \<Longrightarrow> digit_value (char_of (48 + k :: nat)) = int k"
  by (simp add: digit_value_def)

lemma char_0: "CHR ''0'' = char_of (48 + 0 :: nat)" by code_simp

lemma str_nat_small: "n < 10 \<Longrightarrow> str_nat n = [char_of (48 + n)]"
  by (subst str_nat.simps) simp

lemma str_nat_two: "10 \<le> n \<Longrightarrow> n < 100 \<Longrightarrow> str_nat n = [char_of (48 + n div 10), char_of (48 + n mod 10)]"
  by (subst str_nat.simps) (simp add: str_nat_small)

lemma fmt_02d_two:
  assumes "0 \<le> i" "i < 100"
  shows "\<exists>a b. fmt_02d i = [a, b] \<and> isdecimal_char a \<and> isdecimal_char b \<and>
           10 * digit_value a + digit_value b = i"
proof (cases "i < 10")
  case True
  then have n: "nat i < 10" using assms by simp
  have "fmt_02d i = [char_of (48 + 0 :: nat), char_of (48 + nat i)]"
    using True assms by (simp add: fmt_02d_def str_nat_small[OF n] char_0)
  moreover have "isdecimal_char (char_of (48 + 0 :: nat))" by (rule isdecimal_digit) simp
  moreover have "isdecimal_char (char_of (48 + nat i))" using n by (rule isdecimal_digit)
  moreover have "digit_value (char_of (48 + 0 :: nat)) = 0" using digit_value_digit[of 0] by simp
  moreover have "digit_value (char_of (48 + nat i)) = i" using digit_value_digit[OF n] assms by simp
  ultimately show ?thesis by simp
next
  case False
  define n where "n = nat i"
  have n: "10 \<le> n" "n < 100" "int n = i" unfolding n_def using False assms by simp_all
  have q: "n div 10 < 10" "n mod 10 < 10" using n by simp_all
  have "fmt_02d i = [char_of (48 + n div 10), char_of (48 + n mod 10)]"
    using False assms n by (simp add: fmt_02d_def n_def[symmetric] str_nat_two)
  moreover have "isdecimal_char (char_of (48 + n div 10))" using q(1) by (rule isdecimal_digit)
  moreover have "isdecimal_char (char_of (48 + n mod 10))" using q(2) by (rule isdecimal_digit)
  moreover have "10 * digit_value (char_of (48 + n div 10)) + digit_value (char_of (48 + n mod 10)) = i"
  proof -
    have "int n = int (10 * (n div 10) + n mod 10)" by simp
    also have "\<dots> = 10 * int (n div 10) + int (n mod 10)"
      by (simp only: of_nat_add of_nat_mult of_nat_numeral)
    finally show ?thesis
      unfolding digit_value_digit[OF q(1)] digit_value_digit[OF q(2)] n(3)[symmetric] by simp
  qed
  ultimately show ?thesis by blast
qed

lemma py_int_two:
  "isdecimal_char a \<Longrightarrow> isdecimal_char b \<Longrightarrow> py_int [a, b] = Inr (10 * digit_value a + digit_value b)"
  by (simp add: py_int_def)

lemma digit_value_range: "isdecimal_char a \<Longrightarrow> 0 \<le> digit_value a \<and> digit_value a \<le> 9"
  by (auto simp: isdecimal_char_def digit_value_def)

lemma isdecimal_isdigit: "isdecimal_char a \<Longrightarrow> isdigit_char a"
  by (simp add: isdigit_char_def)

lemma century_year_mod:
  assumes "1964 \<le> y" "y \<le> 2063"
  shows "century_year (y mod 100) = y"
proof (cases "y < 2000")
  case True
  have "y = (y - 1900) + 19 * 100" by simp
  then have "y mod 100 = (y - 1900 + 19 * 100) mod 100" by simp
  also have "\<dots> = (y - 1900) mod 100" by (rule mod_mult_self1)
  also have "\<dots> = y - 1900" using True assms by (intro mod_pos_pos_trivial) simp_all
  finally show ?thesis using assms by (simp add: century_year_def)
next
  case False
  have "y = (y - 2000) + 20 * 100" by simp
  then have "y mod 100 = (y - 2000 + 20 * 100) mod 100" by simp
  also have "\<dots> = (y - 2000) mod 100" by (rule mod_mult_self1)
  also have "\<dots> = y - 2000" using False assms by (intro mod_pos_pos_trivial) simp_all
  finally show ?thesis using assms by (simp add: century_year_def)
qed

lemma century_year_range: "0 \<le> yp \<Longrightarrow> yp \<le> 99 \<Longrightarrow> 1964 \<le> century_year yp \<and> century_year yp \<le> 2063"
  by (simp add: century_year_def)

lemma dby_2: "days_before_year 2 = 365" by (simp add: days_before_year_def)
lemma dby_9998: "days_before_year 9998 = 3651329" by (simp add: days_before_year_def)

lemma cycle_start_year_end: "cycle_start (days_before_year y) = first_cycle_start y - 28"
proof (rule cycle_start_same)
  show "cycle_boundary (first_cycle_start y - 28)" by (intro boundary_minus fcs_bounds)
  show "first_cycle_start y - 28 \<le> days_before_year y" using fcs_bounds(2)[of y] by simp
  show "days_before_year y \<le> first_cycle_start y - 28 + 27" using fcs_bounds(1)[of y] by simp
qed

lemma from_identifier_digits:
  assumes dec: "isdecimal_char a" "isdecimal_char b" "isdecimal_char c'" "isdecimal_char d'"
  defines "yp \<equiv> 10 * digit_value a + digit_value b"
  defines "k \<equiv> 10 * digit_value c' + digit_value d'"
  defines "e \<equiv> first_cycle_start (century_year yp) + 28 * (k - 1)"
  shows "from_identifier [a, b, c', d'] =
     (if k < 1 \<or> 14 < k then Inl (invalid_ordinal [a, b, c', d'])
      else if e < first_cycle_start (century_year yp + 1) then Inr (cycle_at e)
      else Inl (invalid_identifier [a, b, c', d']))"
proof -
  define s where "s = [a, b, c', d']"
  define Y where "Y = century_year yp"
  have yp: "0 \<le> yp" "yp \<le> 99" unfolding yp_def using digit_value_range[OF dec(1)] digit_value_range[OF dec(2)] by simp_all
  have Y: "1964 \<le> Y" "Y \<le> 2063" unfolding Y_def using century_year_range[OF yp] by simp_all
  have fmt: "\<not> (length s \<noteq> 4 \<or> \<not> isdigit s)"
    unfolding s_def using dec by (simp add: isdigit_def isdecimal_isdigit)
  have p1: "py_int (take 2 s) = Inr yp" unfolding s_def yp_def using py_int_two[OF dec(1,2)] by simp
  have p2: "py_int (drop 2 s) = Inr k" unfolding s_def k_def using py_int_two[OF dec(3,4)] by simp
  have cy: "(if yp \<ge> 64 then 1900 + yp else 2000 + yp) = Y" unfolding Y_def century_year_def by (rule refl)
  have head: "from_identifier s =
      (if k < 1 \<or> k > 14 then Inl (invalid_ordinal s)
              else bind (date_ymd (Y - 1) 12 31) (\<lambda>prev_year_end.
                   bind (from_date prev_year_end) (\<lambda>last_cycle_prev_year.
                   bind (date_add (effective_date last_cycle_prev_year)
                              (k * CYCLE_DAYS)) (\<lambda>target_effective.
                      bind (from_date target_effective) (\<lambda>result.
                      if year result \<noteq> Y \<or> ordinal result \<noteq> k
                      then Inl (invalid_identifier s)
                      else Inr result)))))"
    unfolding from_identifier_def by (simp only: fmt if_False p1 p2 bind_Inr Let_def cy)
  show ?thesis
  proof (cases "k < 1 \<or> 14 < k")
    case True
    then show ?thesis unfolding s_def[symmetric] head by simp
  next
    case False
    then have k: "1 \<le> k" "k \<le> 14" by simp_all
    have e: "e = first_cycle_start Y + 28 * (k - 1)" unfolding e_def Y_def by (rule refl)
    have dlo: "365 \<le> days_before_year Y" using dby_mono[of 2 Y] Y by (simp add: dby_2)
    have dhi: "days_before_year Y \<le> 3651329" using dby_mono[of Y 9998] Y by (simp add: dby_9998)
    have 1: "date_ymd (Y - 1) 12 31 = Inr (days_before_year Y)" using Y by (intro date_ymd_dec31) simp_all
    have 2: "from_date (days_before_year Y) = Inr (cycle_at (days_before_year Y))"
      using dlo dhi by (intro from_date_Inr) simp_all
    have 3: "effective_date (cycle_at (days_before_year Y)) = first_cycle_start Y - 28"
      by (simp add: cycle_at_sel cycle_start_year_end)
    have fb: "days_before_year Y + 1 \<le> first_cycle_start Y" "first_cycle_start Y \<le> days_before_year Y + 28"
      by (rule fcs_bounds)+
    have eb: "18 \<le> e" "e \<le> 3652057" unfolding e using fb dlo dhi k by simp_all
    have 4: "date_add (first_cycle_start Y - 28) (k * CYCLE_DAYS) = Inr e"
      unfolding date_add_def Let_def MAXORDINAL_def CYCLE_DAYS_def using eb e by simp
    have 5: "from_date e = Inr (cycle_at e)" using eb by (rule from_date_Inr)
    have be: "cycle_boundary e" unfolding e by (intro boundary_shift fcs_bounds)
    have cs: "cycle_start e = e" using be by (rule cycle_start_boundary)
    have yr: "year (cycle_at e) = cycle_year e" by (simp add: cycle_at_sel cs)
    have od: "ordinal (cycle_at e) = (e - first_cycle_start (cycle_year e)) div 28 + 1"
      by (simp add: cycle_at_sel cs)
    have le: "first_cycle_start Y \<le> e" unfolding e using k by simp
    have body: "from_identifier s =
       (if year (cycle_at e) \<noteq> Y \<or> ordinal (cycle_at e) \<noteq> k
                      then Inl (invalid_identifier s) else Inr (cycle_at e))"
      unfolding head by (simp only: False if_False 1 bind_Inr 2 3 4 5)
    show ?thesis
    proof (cases "e < first_cycle_start (Y + 1)")
      case True
      with le have c: "cycle_year e = Y" by (rule cycle_year_unique)
      have "e - first_cycle_start Y = 28 * (k - 1)" using e by simp
      then have "(e - first_cycle_start Y) div 28 = k - 1" by simp
      then have "ordinal (cycle_at e) = k" unfolding od c by simp
      then show ?thesis unfolding s_def[symmetric] body yr c using True False Y_def e_def by simp
    next
      case nex: False
      have "cycle_year e \<noteq> Y" using cycle_year_rule[of e] nex by auto
      then show ?thesis unfolding s_def[symmetric] body yr using nex False Y_def e_def by simp
    qed
  qed
qed

subsection \<open>The round trip\<close>

text \<open>
  The identifier of a cycle, read by \<open>from_identifier\<close>.
\<close>

lemma fcs_mono_aux: "0 \<le> (k::int) \<Longrightarrow> first_cycle_start y \<le> first_cycle_start (y + k)"
proof (induction k rule: int_ge_induct)
  case base
  show ?case by simp
next
  case (step i)
  have "first_cycle_start (y + i) < first_cycle_start (y + i + 1)" by (rule fcs_strict_mono_step)
  then show ?case using step by (simp add: add.assoc)
qed

lemma fcs_mono: "y \<le> y' \<Longrightarrow> first_cycle_start y \<le> first_cycle_start y'"
  using fcs_mono_aux[of "y' - y" y] by simp

lemma from_date_year_range:
  assumes "from_date d = Inr c"
  shows "1 \<le> year c" "year c \<le> 9999"
proof -
  note D = from_date_InrD[OF assms]
  note R = from_date_year_rule[OF assms]
  have eb: "18 \<le> effective_date c" "effective_date c \<le> 3652030"
    unfolding D(3) cycle_at_sel using D(1,2) by (rule cycle_start_range)+
  show "1 \<le> year c"
  proof (rule ccontr)
    assume "\<not> 1 \<le> year c"
    then have "first_cycle_start (year c + 1) \<le> first_cycle_start 1" by (intro fcs_mono) simp
    with R(2) eb show False by (simp add: fcs_1)
  qed
  show "year c \<le> 9999"
  proof (rule ccontr)
    assume "\<not> year c \<le> 9999"
    then have "days_before_year 10000 \<le> days_before_year (year c)" by (intro dby_mono) simp
    with fcs_bounds(1)[of "year c"] R(1) eb show False by (simp add: dby_10000)
  qed
qed

lemma identifier_digits:
  assumes "from_date d = Inr c"
  shows "\<exists>a b c' d'. identifier c = [a, b, c', d'] \<and>
           isdecimal_char a \<and> isdecimal_char b \<and> isdecimal_char c' \<and> isdecimal_char d' \<and>
           10 * digit_value a + digit_value b = year c mod 100 \<and>
           10 * digit_value c' + digit_value d' = ordinal c"
proof -
  note D = from_date_InrD[OF assms]
  note R = from_date_year_rule[OF assms]
  have i: "identifier c = fmt_02d (year c mod 100) @ fmt_02d (ordinal c)"
    unfolding D(3) by (rule cycle_at_sel)
  have "0 \<le> year c mod 100" "year c mod 100 < 100" by simp_all
  from fmt_02d_two[OF this] obtain a b where
    1: "fmt_02d (year c mod 100) = [a, b]" "isdecimal_char a" "isdecimal_char b"
       "10 * digit_value a + digit_value b = year c mod 100" by blast
  have "0 \<le> ordinal c" "ordinal c < 100" using R(4,5) by simp_all
  from fmt_02d_two[OF this] obtain c' d' where
    2: "fmt_02d (ordinal c) = [c', d']" "isdecimal_char c'" "isdecimal_char d'"
       "10 * digit_value c' + digit_value d' = ordinal c" by blast
  show ?thesis unfolding i 1(1) 2(1) using 1(2-) 2(2-) by simp
qed

lemma round_trip:
  assumes "from_date d = Inr c" "1964 \<le> year c" "year c \<le> 2063"
  shows "from_identifier (identifier c) = Inr c"
proof -
  note D = from_date_InrD[OF assms(1)]
  note R = from_date_year_rule[OF assms(1)]
  from identifier_digits[OF assms(1)] obtain a b c' d' where
    i: "identifier c = [a, b, c', d']" and
    dec: "isdecimal_char a" "isdecimal_char b" "isdecimal_char c'" "isdecimal_char d'" and
    yp: "10 * digit_value a + digit_value b = year c mod 100" and
    k: "10 * digit_value c' + digit_value d' = ordinal c" by blast
  have cy: "century_year (year c mod 100) = year c" using assms(2,3) by (rule century_year_mod)
  have e: "first_cycle_start (year c) + 28 * (ordinal c - 1) = effective_date c" using R(6) by simp
  have "cycle_at (effective_date c) = cycle_at d"
    unfolding D(3) cycle_at_sel by (rule cycle_at_cycle_start)
  then have ce: "cycle_at (effective_date c) = c" using D(3) by simp
  show ?thesis
    unfolding i from_identifier_digits[OF dec] yp k cy e ce
    using R(2,4,5) by simp
qed

lemma from_identifier_of_identifier:
  assumes "from_date d = Inr c" "from_identifier (identifier c) = Inr c'"
  shows "year c' = century_year (year c mod 100)" "ordinal c' = ordinal c"
    "1964 \<le> year c'" "year c' \<le> 2063" "identifier c' = identifier c"
proof -
  from identifier_digits[OF assms(1)] obtain a b c2 d2 where
    i: "identifier c = [a, b, c2, d2]" and
    dec: "isdecimal_char a" "isdecimal_char b" "isdecimal_char c2" "isdecimal_char d2" and
    yp: "10 * digit_value a + digit_value b = year c mod 100" and
    k: "10 * digit_value c2 + digit_value d2 = ordinal c" by blast
  from from_identifier_InrD[OF assms(2)] obtain yp' k' where
    p: "py_int (take 2 (identifier c)) = Inr yp'" "py_int (drop 2 (identifier c)) = Inr k'"
       "year c' = century_year yp'" "ordinal c' = k'" by blast
  have "yp' = year c mod 100" using p(1) py_int_two[OF dec(1,2)] yp unfolding i by simp
  moreover have "k' = ordinal c" using p(2) py_int_two[OF dec(3,4)] k unfolding i by simp
  ultimately show y: "year c' = century_year (year c mod 100)" and o: "ordinal c' = ordinal c"
    using p(3,4) by simp_all
  have "0 \<le> year c mod 100" "year c mod 100 \<le> 99" by simp_all
  from century_year_range[OF this] show w: "1964 \<le> year c'" "year c' \<le> 2063" unfolding y by simp_all
  obtain d' where f': "from_date d' = Inr c'" using from_identifier_result[OF assms(2)] by blast
  have "year c' mod 100 = year c mod 100"
  proof (cases "64 \<le> year c mod 100")
    case True
    then have "year c' = year c mod 100 + 19 * 100" unfolding y century_year_def by simp
    then have "year c' mod 100 = (year c mod 100 + 19 * 100) mod 100" by simp
    also have "\<dots> = (year c mod 100) mod 100" by (rule mod_mult_self1)
    finally show ?thesis by simp
  next
    case False
    then have "year c' = year c mod 100 + 20 * 100" unfolding y century_year_def by simp
    then have "year c' mod 100 = (year c mod 100 + 20 * 100) mod 100" by simp
    also have "\<dots> = (year c mod 100) mod 100" by (rule mod_mult_self1)
    finally show ?thesis by simp
  qed
  then have m: "year c' mod 100 = year c mod 100" .
  have ic: "identifier c = fmt_02d (year c mod 100) @ fmt_02d (ordinal c)"
    unfolding from_date_InrD(3)[OF assms(1)] by (rule cycle_at_sel)
  have ic': "identifier c' = fmt_02d (year c' mod 100) @ fmt_02d (ordinal c')"
    unfolding from_date_InrD(3)[OF f'] by (rule cycle_at_sel)
  show "identifier c' = identifier c" unfolding ic ic' m o by (rule refl)
qed

lemma cycle_exists:
  assumes "1 \<le> y" "y \<le> 9998" "1 \<le> k" "k \<le> 13"
  shows "\<exists>c. from_date (first_cycle_start y + 28 * (k - 1)) = Inr c \<and> year c = y \<and> ordinal c = k"
proof -
  define e where "e = first_cycle_start y + 28 * (k - 1)"
  have be: "cycle_boundary e" unfolding e_def by (intro boundary_shift fcs_bounds)
  have fb: "days_before_year y + 1 \<le> first_cycle_start y" "first_cycle_start y \<le> days_before_year y + 28"
    by (rule fcs_bounds)+
  have dlo: "0 \<le> days_before_year y" using dby_mono[OF assms(1)] by (simp add: dby_1)
  have dhi: "days_before_year y \<le> 3651329" using dby_mono[OF assms(2)] by (simp add: dby_9998)
  have le: "first_cycle_start y \<le> e" unfolding e_def using assms(3) by simp
  have "first_cycle_start 1 \<le> e" using be le fb dlo by (intro fcs_least) (simp_all add: dby_1)
  then have e18: "18 \<le> e" by (simp add: fcs_1)
  have ehi: "e \<le> days_before_year y + 364" unfolding e_def using fb assms(4) by simp
  then have f: "from_date e = Inr (cycle_at e)" using e18 dhi by (intro from_date_Inr) simp_all
  have "e < days_before_year (y + 1) + 1" using ehi dby_succ_ge[of y] by simp
  also have "\<dots> \<le> first_cycle_start (y + 1)" by (rule fcs_bounds)
  finally have cy: "cycle_year e = y" using le by (intro cycle_year_unique)
  have cs: "cycle_start e = e" using be by (rule cycle_start_boundary)
  have "e - first_cycle_start y = 28 * (k - 1)" unfolding e_def by simp
  then have "(e - first_cycle_start y) div 28 = k - 1" by simp
  then have "ordinal (cycle_at e) = k" by (simp add: cycle_at_sel cs cy)
  moreover have "year (cycle_at e) = y" by (simp add: cycle_at_sel cs cy)
  ultimately show ?thesis using f unfolding e_def by blast
qed

subsection \<open>Inputs of \<open>from_identifier\<close>\<close>

text \<open>
  What \<open>from_identifier\<close> does on each kind of input.
\<close>

lemma length_4: "length s = 4 \<Longrightarrow> \<exists>a b c d. s = [a, b, c, d]"
  by (auto simp: length_Suc_conv eval_nat_numeral)

lemma py_int_Inr: "py_int s = Inr n \<Longrightarrow> list_all isdecimal_char s"
  by (simp add: py_int_def split: if_splits)

lemma from_identifier_fields:
  assumes "from_identifier s = Inr c"
  shows "length s = 4" "list_all isdecimal_char s"
    "year c = century_year (10 * digit_value (s ! 0) + digit_value (s ! 1))"
    "ordinal c = 10 * digit_value (s ! 2) + digit_value (s ! 3)"
proof -
  from from_identifier_InrD[OF assms] obtain yp k where
    p: "length s = 4" "py_int (take 2 s) = Inr yp" "py_int (drop 2 s) = Inr k"
       "year c = century_year yp" "ordinal c = k" by blast
  from length_4[OF p(1)] obtain a b c' d' where s: "s = [a, b, c', d']" by blast
  show "length s = 4" by (rule p)
  have d1: "isdecimal_char a" "isdecimal_char b" using py_int_Inr[OF p(2)] unfolding s by simp_all
  have d2: "isdecimal_char c'" "isdecimal_char d'" using py_int_Inr[OF p(3)] unfolding s by simp_all
  show "list_all isdecimal_char s" unfolding s using d1 d2 by simp
  have "yp = 10 * digit_value a + digit_value b" using p(2) py_int_two[OF d1] unfolding s by simp
  then show "year c = century_year (10 * digit_value (s ! 0) + digit_value (s ! 1))"
    unfolding p(4) s by simp
  have "k = 10 * digit_value c' + digit_value d'" using p(3) py_int_two[OF d2] unfolding s by simp
  then show "ordinal c = 10 * digit_value (s ! 2) + digit_value (s ! 3)"
    unfolding p(5) s by simp
qed

lemma no_2514: "\<not> (\<exists>d c'. from_date d = Inr c' \<and> year c' = 2025 \<and> ordinal c' = 14)"
proof
  assume "\<exists>d c'. from_date d = Inr c' \<and> year c' = 2025 \<and> ordinal c' = 14"
  then obtain d c' where f: "from_date d = Inr c'" and y: "year c' = 2025" and k: "ordinal c' = 14"
    by blast
  note R = from_date_year_rule[OF f]
  have "first_cycle_start 2025 + 28 * 13 = first_cycle_start (2025 + 1)" by code_simp
  with R(2,6) y k show False by simp
qed

lemma from_identifier_bad_format:
  "length s \<noteq> 4 \<or> \<not> isdigit s \<Longrightarrow> from_identifier s = Inl (invalid_identifier s)"
  by (simp add: from_identifier_def)

lemma from_identifier_superscript:
  assumes "length s = 4" "isdigit s" "\<not> list_all isdecimal_char s"
  shows "from_identifier s =
    Inl (int_literal_error (if list_all isdecimal_char (take 2 s) then drop 2 s else take 2 s))"
proof -
  from length_4[OF assms(1)] obtain a b c d where s: "s = [a, b, c, d]" by blast
  have f: "\<not> (length s \<noteq> 4 \<or> \<not> isdigit s)" using assms by simp
  show ?thesis
  proof (cases "list_all isdecimal_char (take 2 s)")
    case True
    then have 1: "py_int (take 2 s) = Inr (10 * digit_value a + digit_value b)"
      unfolding s using py_int_two[of a b] by simp
    have "\<not> list_all isdecimal_char (drop 2 s)" using True assms(3) unfolding s by auto
    then have 2: "py_int (drop 2 s) = Inl (int_literal_error (drop 2 s))" by (simp add: py_int_def)
    show ?thesis unfolding from_identifier_def by (simp only: f if_False 1 bind_Inr 2 bind_Inl True if_True)
  next
    case False
    then have 1: "py_int (take 2 s) = Inl (int_literal_error (take 2 s))" by (simp add: py_int_def)
    show ?thesis unfolding from_identifier_def by (simp only: f if_False 1 bind_Inl False)
  qed
qed

lemma from_identifier_decimal:
  assumes "length s = 4" "list_all isdecimal_char s"
  shows "from_identifier s =
     (let k = 10 * digit_value (s ! 2) + digit_value (s ! 3);
          y = century_year (10 * digit_value (s ! 0) + digit_value (s ! 1))
      in if k < 1 \<or> 14 < k then Inl (invalid_ordinal s)
         else if first_cycle_start y + 28 * (k - 1) < first_cycle_start (y + 1)
              then Inr (cycle_at (first_cycle_start y + 28 * (k - 1)))
              else Inl (invalid_identifier s))"
proof -
  from length_4[OF assms(1)] obtain a b c d where s: "s = [a, b, c, d]" by blast
  have dec: "isdecimal_char a" "isdecimal_char b" "isdecimal_char c" "isdecimal_char d"
    using assms(2) unfolding s by simp_all
  show ?thesis unfolding s from_identifier_digits[OF dec] Let_def by simp
qed

lemma from_identifier_ValueError:
  assumes "from_identifier s = Inl e"
  shows "\<exists>m. e = ValueError m"
proof (cases "length s \<noteq> 4 \<or> \<not> isdigit s")
  case True
  have "from_identifier s = Inl (invalid_identifier s)" using True by (rule from_identifier_bad_format)
  with assms have "e = invalid_identifier s" by simp
  then show ?thesis unfolding invalid_identifier_def by blast
next
  case f: False
  show ?thesis
  proof (cases "list_all isdecimal_char s")
    case True
    then show ?thesis using assms f from_identifier_decimal[of s]
      by (auto simp: Let_def invalid_identifier_def invalid_ordinal_def split: if_splits)
  next
    case False
    then show ?thesis using assms f from_identifier_superscript[of s]
      by (auto simp: int_literal_error_def)
  qed
qed

section \<open>The claims\<close>

text \<open>
  Claim C1, as the code has it.  \<open>from_date\<close> is not total on \<open>datetime.date\<close>: it
  returns a cycle exactly for the dates from 0001-01-18 to 9999-12-29, and for every other
  date the date arithmetic raises \<open>OverflowError\<close>.  Where it returns, the effective date
  is \<open>EPOCH + 28 * floor((d - EPOCH) / 28)\<close> (floor division, also before the epoch) and
  the query date lies between the effective and the expiration date.
\<close>

theorem from_date_total_in_range:
  "(ymd2ord 1 1 18 \<le> d \<and> d \<le> ymd2ord 9999 12 29 \<longrightarrow>
      (\<exists>c. from_date d = Inr c \<and>
           effective_date c = EPOCH + 28 * ((d - EPOCH) div 28) \<and>
           effective_date c \<le> d \<and> d \<le> expiration_date c)) \<and>
   (valid_date d \<and> (d < ymd2ord 1 1 18 \<or> ymd2ord 9999 12 29 < d) \<longrightarrow>
      from_date d = Inl OverflowError)"
proof (intro conjI impI)
  assume "ymd2ord 1 1 18 \<le> d \<and> d \<le> ymd2ord 9999 12 29"
  then have r: "18 \<le> d" "d \<le> 3652057" by (simp_all add: d18 dlast)
  then have f: "from_date d = Inr (cycle_at d)" by (rule from_date_Inr)
  have e: "effective_date (cycle_at d) = EPOCH + 28 * ((d - EPOCH) div 28)"
    by (simp add: cycle_at_sel cycle_start_def CYCLE_DAYS_def)
  have "effective_date (cycle_at d) \<le> d" "d \<le> expiration_date (cycle_at d)"
    using cycle_start_props[of d] by (simp_all add: cycle_at_sel)
  with f e show "\<exists>c. from_date d = Inr c \<and>
           effective_date c = EPOCH + 28 * ((d - EPOCH) div 28) \<and>
           effective_date c \<le> d \<and> d \<le> expiration_date c" by blast
next
  assume "valid_date d \<and> (d < ymd2ord 1 1 18 \<or> ymd2ord 9999 12 29 < d)"
  then have "d < 18 \<or> 3652057 < d" by (simp add: d18 dlast)
  then show "from_date d = Inl OverflowError" by (rule from_date_overflow)
qed

theorem from_date_total_in_range_witness:
  "ymd2ord 1 1 18 \<le> EPOCH \<and> EPOCH \<le> ymd2ord 9999 12 29 \<and>
   (\<exists>c. from_date EPOCH = Inr c \<and>
        effective_date c = EPOCH + 28 * ((EPOCH - EPOCH) div 28) \<and>
        effective_date c \<le> EPOCH \<and> EPOCH \<le> expiration_date c) \<and>
   valid_date (ymd2ord 1 1 1) \<and> ymd2ord 1 1 1 < ymd2ord 1 1 18 \<and>
   from_date (ymd2ord 1 1 1) = Inl OverflowError"
proof -
  have a: "ymd2ord 1 1 18 \<le> EPOCH \<and> EPOCH \<le> ymd2ord 9999 12 29" by code_simp
  have b: "valid_date (ymd2ord 1 1 1) \<and> (ymd2ord 1 1 1 < ymd2ord 1 1 18 \<or> ymd2ord 9999 12 29 < ymd2ord 1 1 1)"
    by code_simp
  have b': "ymd2ord 1 1 1 < ymd2ord 1 1 18" by code_simp
  note t1 = from_date_total_in_range[of EPOCH, THEN conjunct1, rule_format, OF a]
  note t2 = from_date_total_in_range[of "ymd2ord 1 1 1", THEN conjunct2, rule_format, OF b]
  from a b b' t1 t2 show ?thesis by (intro conjI) (simp_all only:)
qed

text \<open>
  Claim C1 as stated fails: the dates 0001-01-01 and 9999-12-31 are dates of Python, and
  \<open>from_date\<close> raises \<open>OverflowError\<close> on both.
\<close>

theorem from_date_not_total:
  "date_ymd 1 1 1 = Inr (ymd2ord 1 1 1) \<and> valid_date (ymd2ord 1 1 1) \<and>
   from_date (ymd2ord 1 1 1) = Inl OverflowError \<and>
   date_ymd 9999 12 31 = Inr (ymd2ord 9999 12 31) \<and> valid_date (ymd2ord 9999 12 31) \<and>
   from_date (ymd2ord 9999 12 31) = Inl OverflowError"
  by code_simp

text \<open>
  Claim C2: the year-boundary rule.  For every cycle \<open>c\<close> that \<open>from_date\<close> returns,
  the effective date lies from the first cycle start of \<open>year c\<close> up to, but not
  including, the first cycle start of the next year; the ordinal is
  \<open>(effective_date - first_cycle_start(year)) div 28 + 1\<close>, it lies in [1,14], and it is 1
  exactly for the first cycle start of the year.  The first cycle start of a year \<open>y\<close> is
  the earliest cycle boundary on or after \<open>date(y,1,1)\<close>.  When \<open>date(y,1,1)\<close> is not a
  boundary, its cycle belongs to the year \<open>y - 1\<close> and is the last one of that year: the
  next cycle is the first of the year \<open>y\<close>.
\<close>

theorem year_boundary_rule:
  "(from_date d = Inr c \<longrightarrow>
      first_cycle_start (year c) \<le> effective_date c \<and>
      effective_date c < first_cycle_start (year c + 1) \<and>
      ordinal c = (effective_date c - first_cycle_start (year c)) div 28 + 1 \<and>
      1 \<le> ordinal c \<and> ordinal c \<le> 14 \<and>
      (ordinal c = 1) = (effective_date c = first_cycle_start (year c))) \<and>
   (cycle_boundary (first_cycle_start y) \<and> ymd2ord y 1 1 \<le> first_cycle_start y \<and>
    (\<forall>n. cycle_boundary n \<and> ymd2ord y 1 1 \<le> n \<longrightarrow> first_cycle_start y \<le> n)) \<and>
   (from_date (ymd2ord y 1 1) = Inr c \<and> \<not> cycle_boundary (ymd2ord y 1 1) \<longrightarrow>
      year c = y - 1 \<and> effective_date c + 28 = first_cycle_start y)"
proof (intro conjI impI allI)
  assume f: "from_date d = Inr c"
  note R = from_date_year_rule[OF f]
  show "first_cycle_start (year c) \<le> effective_date c" by (rule R)
  show "effective_date c < first_cycle_start (year c + 1)" by (rule R)
  show "ordinal c = (effective_date c - first_cycle_start (year c)) div 28 + 1" by (rule R)
  show "1 \<le> ordinal c" by (rule R)
  show "ordinal c \<le> 14" by (rule R)
  show "(ordinal c = 1) = (effective_date c = first_cycle_start (year c))" using R(6) by auto
next
  show "cycle_boundary (first_cycle_start y)" by (rule fcs_bounds)
  show "ymd2ord y 1 1 \<le> first_cycle_start y" unfolding year_start_eq by (rule fcs_bounds)
next
  fix n assume "cycle_boundary n \<and> ymd2ord y 1 1 \<le> n"
  then show "first_cycle_start y \<le> n" unfolding year_start_eq by (intro fcs_least) simp_all
next
  assume a: "from_date (ymd2ord y 1 1) = Inr c \<and> \<not> cycle_boundary (ymd2ord y 1 1)"
  then show "year c = y - 1" using jan1_not_boundary(1) by blast
  from a show "effective_date c + 28 = first_cycle_start y" using jan1_not_boundary(2) by blast
qed

theorem year_boundary_rule_witness:
  "from_date (ymd2ord 2021 1 1) =
     Inr \<lparr> identifier = ''2014'', year = 2020, ordinal = 14,
           effective_date = ymd2ord 2020 12 31, expiration_date = ymd2ord 2021 1 27 \<rparr> \<and>
   \<not> cycle_boundary (ymd2ord 2021 1 1) \<and>
   first_cycle_start 2020 = ymd2ord 2020 1 2 \<and>
   first_cycle_start 2021 = ymd2ord 2021 1 28 \<and>
   first_cycle_start 2020 \<le> ymd2ord 2020 12 31 \<and>
   ymd2ord 2020 12 31 < first_cycle_start (2020 + 1) \<and>
   (14::int) = (ymd2ord 2020 12 31 - first_cycle_start 2020) div 28 + 1 \<and>
   ymd2ord 2020 12 31 + 28 = first_cycle_start 2021 \<and>
   cycle_boundary (ymd2ord 2021 1 28) \<and> ymd2ord 2021 1 1 \<le> ymd2ord 2021 1 28 \<and>
   first_cycle_start 2021 \<le> ymd2ord 2021 1 28"
proof -
  let ?c = "\<lparr> identifier = ''2014'', year = 2020, ordinal = 14,
           effective_date = ymd2ord 2020 12 31, expiration_date = ymd2ord 2021 1 27 \<rparr>"
  have a: "from_date (ymd2ord 2021 1 1) = Inr ?c" by code_simp
  have b: "\<not> cycle_boundary (ymd2ord 2021 1 1)" by code_simp
  have f0: "first_cycle_start 2020 = ymd2ord 2020 1 2" by code_simp
  have f1: "first_cycle_start 2021 = ymd2ord 2021 1 28" by code_simp
  have g: "cycle_boundary (ymd2ord 2021 1 28) \<and> ymd2ord 2021 1 1 \<le> ymd2ord 2021 1 28" by code_simp
  note T = year_boundary_rule[of "ymd2ord 2021 1 1" ?c 2021]
  note T1 = T[THEN conjunct1, rule_format, OF a]
  note T2 = T[THEN conjunct2, THEN conjunct1, THEN conjunct2, THEN conjunct2, rule_format, OF g]
  note T3 = T[THEN conjunct2, THEN conjunct2, rule_format, OF conjI, OF a b]
  show ?thesis using a b f0 f1 g T1 T2 T3 by simp
qed

text \<open>
  Claim C3, as the code has it.  The round trip holds for the cycles of the years 1964 to
  2063: for every date whose cycle \<open>c\<close> has such a year, \<open>from_identifier\<close> of its
  identifier returns a cycle with the effective date of \<open>c\<close>.
\<close>

theorem round_trip_effective_date:
  "from_date d = Inr c \<and> 1964 \<le> year c \<and> year c \<le> 2063 \<longrightarrow>
     (\<exists>c'. from_identifier (identifier c) = Inr c' \<and> effective_date c' = effective_date c)"
proof
  assume "from_date d = Inr c \<and> 1964 \<le> year c \<and> year c \<le> 2063"
  then have "from_identifier (identifier c) = Inr c" using round_trip by blast
  then show "\<exists>c'. from_identifier (identifier c) = Inr c' \<and> effective_date c' = effective_date c"
    by blast
qed

theorem round_trip_effective_date_witness:
  "from_date (ymd2ord 2025 11 25) =
     Inr \<lparr> identifier = ''2511'', year = 2025, ordinal = 11,
           effective_date = ymd2ord 2025 10 30, expiration_date = ymd2ord 2025 11 26 \<rparr> \<and>
   (\<exists>c'. from_identifier ''2511'' = Inr c' \<and> effective_date c' = ymd2ord 2025 10 30)"
proof -
  let ?c = "\<lparr> identifier = ''2511'', year = 2025, ordinal = 11,
           effective_date = ymd2ord 2025 10 30, expiration_date = ymd2ord 2025 11 26 \<rparr>"
  have a: "from_date (ymd2ord 2025 11 25) = Inr ?c" by code_simp
  have b: "1964 \<le> year ?c \<and> year ?c \<le> 2063" by simp
  have "\<exists>c'. from_identifier (identifier ?c) = Inr c' \<and> effective_date c' = effective_date ?c"
    using round_trip_effective_date[rule_format, OF conjI, OF a b] .
  then have "\<exists>c'. from_identifier ''2511'' = Inr c' \<and> effective_date c' = ymd2ord 2025 10 30"
    by simp
  with a show ?thesis by (rule conjI)
qed

text \<open>
  Claim C3 as stated fails outside these years: the cycle of 2064-02-01 has the identifier
  6402, which \<open>from_identifier\<close> resolves to the second cycle of 1964.
\<close>

theorem round_trip_fails_in_2064:
  "from_date (ymd2ord 2064 2 1) =
     Inr \<lparr> identifier = ''6402'', year = 2064, ordinal = 2,
           effective_date = ymd2ord 2064 1 31, expiration_date = ymd2ord 2064 2 27 \<rparr> \<and>
   from_identifier ''6402'' =
     Inr \<lparr> identifier = ''6402'', year = 1964, ordinal = 2,
           effective_date = ymd2ord 1964 2 13, expiration_date = ymd2ord 1964 3 11 \<rparr> \<and>
   ymd2ord 1964 2 13 \<noteq> ymd2ord 2064 1 31"
  by code_simp

text \<open>
  Claim C4, as the code has it.  Every failure of \<open>from_identifier\<close> is a \<open>ValueError\<close>,
  and no cycle is returned then.  An input whose length is not 4 or that has a character
  that is not a digit raises \<open>ValueError('Invalid AIRAC identifier: <input>')\<close>; so does
  an input of four decimal digits with an ordinal in [1,14] for which the round-trip
  verification fails, which is when the resolved year has no cycle of that ordinal (the
  cycle so many cycles after the start of the year starts in the next year).  An input of
  four decimal digits with an ordinal outside [1,14] raises
  \<open>ValueError('Invalid ordinal in AIRAC identifier: <input>')\<close>.  Four characters that
  satisfy \<open>isdigit\<close> but are not all decimal digits make \<open>int()\<close> raise its
  \<open>ValueError\<close>.  In particular 12a3 and 123 raise the first error, 2515 and 2500 the
  second.
\<close>

theorem from_identifier_errors:
  "(length s \<noteq> 4 \<or> \<not> isdigit s \<longrightarrow> from_identifier s = Inl (invalid_identifier s)) \<and>
   (length s = 4 \<and> isdigit s \<and> \<not> list_all isdecimal_char s \<longrightarrow>
      from_identifier s =
        Inl (int_literal_error (if list_all isdecimal_char (take 2 s) then drop 2 s else take 2 s))) \<and>
   (length s = 4 \<and> list_all isdecimal_char s \<longrightarrow>
      from_identifier s =
        (let k = 10 * digit_value (s ! 2) + digit_value (s ! 3);
             y = century_year (10 * digit_value (s ! 0) + digit_value (s ! 1))
         in if k < 1 \<or> 14 < k then Inl (invalid_ordinal s)
            else if first_cycle_start y + 28 * (k - 1) < first_cycle_start (y + 1)
                 then Inr (cycle_at (first_cycle_start y + 28 * (k - 1)))
                 else Inl (invalid_identifier s))) \<and>
   (from_identifier s = Inl e \<longrightarrow> (\<exists>m. e = ValueError m)) \<and>
   invalid_identifier s = ValueError (''Invalid AIRAC identifier: '' @ s) \<and>
   invalid_ordinal s = ValueError (''Invalid ordinal in AIRAC identifier: '' @ s) \<and>
   from_identifier ''12a3'' = Inl (ValueError ''Invalid AIRAC identifier: 12a3'') \<and>
   from_identifier ''123'' = Inl (ValueError ''Invalid AIRAC identifier: 123'') \<and>
   from_identifier ''2515'' = Inl (ValueError ''Invalid ordinal in AIRAC identifier: 2515'') \<and>
   from_identifier ''2500'' = Inl (ValueError ''Invalid ordinal in AIRAC identifier: 2500'')"
proof (intro conjI impI)
  assume "length s \<noteq> 4 \<or> \<not> isdigit s"
  then show "from_identifier s = Inl (invalid_identifier s)" by (rule from_identifier_bad_format)
next
  assume "length s = 4 \<and> isdigit s \<and> \<not> list_all isdecimal_char s"
  then show "from_identifier s =
        Inl (int_literal_error (if list_all isdecimal_char (take 2 s) then drop 2 s else take 2 s))"
    using from_identifier_superscript by blast
next
  assume "length s = 4 \<and> list_all isdecimal_char s"
  then show "from_identifier s =
        (let k = 10 * digit_value (s ! 2) + digit_value (s ! 3);
             y = century_year (10 * digit_value (s ! 0) + digit_value (s ! 1))
         in if k < 1 \<or> 14 < k then Inl (invalid_ordinal s)
            else if first_cycle_start y + 28 * (k - 1) < first_cycle_start (y + 1)
                 then Inr (cycle_at (first_cycle_start y + 28 * (k - 1)))
                 else Inl (invalid_identifier s))"
    using from_identifier_decimal by blast
next
  assume "from_identifier s = Inl e"
  then show "\<exists>m. e = ValueError m" by (rule from_identifier_ValueError)
next
  show "invalid_identifier s = ValueError (''Invalid AIRAC identifier: '' @ s)"
    by (rule invalid_identifier_def)
  show "invalid_ordinal s = ValueError (''Invalid ordinal in AIRAC identifier: '' @ s)"
    by (rule invalid_ordinal_def)
  show "from_identifier ''12a3'' = Inl (ValueError ''Invalid AIRAC identifier: 12a3'')" by code_simp
  show "from_identifier ''123'' = Inl (ValueError ''Invalid AIRAC identifier: 123'')" by code_simp
  show "from_identifier ''2515'' = Inl (ValueError ''Invalid ordinal in AIRAC identifier: 2515'')"
    by code_simp
  show "from_identifier ''2500'' = Inl (ValueError ''Invalid ordinal in AIRAC identifier: 2500'')"
    by code_simp
qed

theorem from_identifier_errors_witness:
  "from_identifier ''25a1'' = Inl (invalid_identifier ''25a1'') \<and>
   from_identifier [CHR ''2'', CHR ''5'', CHR ''0'', CHR 0xB2] =
     Inl (int_literal_error [CHR ''0'', CHR 0xB2]) \<and>
   from_identifier ''2514'' = Inl (invalid_identifier ''2514'') \<and>
   from_identifier ''2599'' = Inl (invalid_ordinal ''2599'') \<and>
   (\<exists>m. invalid_identifier ''2514'' = ValueError m)"
proof -
  note T = from_identifier_errors
  have h1: "length ''25a1'' \<noteq> 4 \<or> \<not> isdigit ''25a1''" by code_simp
  have 1: "from_identifier ''25a1'' = Inl (invalid_identifier ''25a1'')"
    using T[THEN conjunct1, rule_format, OF h1] .
  let ?s = "[CHR ''2'', CHR ''5'', CHR ''0'', CHR 0xB2]"
  have h2: "length ?s = 4 \<and> isdigit ?s \<and> \<not> list_all isdecimal_char ?s" by code_simp
  have e2: "(if list_all isdecimal_char (take 2 ?s) then drop 2 ?s else take 2 ?s) = [CHR ''0'', CHR 0xB2]"
    by code_simp
  have 2: "from_identifier ?s = Inl (int_literal_error [CHR ''0'', CHR 0xB2])"
    using T[THEN conjunct2, THEN conjunct1, rule_format, OF h2] unfolding e2 .
  have h3: "length ''2514'' = 4 \<and> list_all isdecimal_char ''2514''" by code_simp
  have e3: "(let k = 10 * digit_value (''2514'' ! 2) + digit_value (''2514'' ! 3);
             y = century_year (10 * digit_value (''2514'' ! 0) + digit_value (''2514'' ! 1))
         in if k < 1 \<or> 14 < k then Inl (invalid_ordinal ''2514'')
            else if first_cycle_start y + 28 * (k - 1) < first_cycle_start (y + 1)
                 then Inr (cycle_at (first_cycle_start y + 28 * (k - 1)))
                 else Inl (invalid_identifier ''2514'')) = Inl (invalid_identifier ''2514'')"
    by code_simp
  have 3: "from_identifier ''2514'' = Inl (invalid_identifier ''2514'')"
    using T[THEN conjunct2, THEN conjunct2, THEN conjunct1, rule_format, OF h3] unfolding e3 .
  have h4: "length ''2599'' = 4 \<and> list_all isdecimal_char ''2599''" by code_simp
  have e4: "(let k = 10 * digit_value (''2599'' ! 2) + digit_value (''2599'' ! 3);
             y = century_year (10 * digit_value (''2599'' ! 0) + digit_value (''2599'' ! 1))
         in if k < 1 \<or> 14 < k then Inl (invalid_ordinal ''2599'')
            else if first_cycle_start y + 28 * (k - 1) < first_cycle_start (y + 1)
                 then Inr (cycle_at (first_cycle_start y + 28 * (k - 1)))
                 else Inl (invalid_identifier ''2599'')) = Inl (invalid_ordinal ''2599'')"
    by code_simp
  have 4: "from_identifier ''2599'' = Inl (invalid_ordinal ''2599'')"
    using T[THEN conjunct2, THEN conjunct2, THEN conjunct1, rule_format, OF h4] unfolding e4 .
  have 5: "\<exists>m. invalid_identifier ''2514'' = ValueError m"
    using T[THEN conjunct2, THEN conjunct2, THEN conjunct2, THEN conjunct1, rule_format, OF 3] .
  show ?thesis using 1 2 3 4 5 by (intro conjI)
qed

text \<open>
  Claim C4 as stated fails: the code has one error kind.  The well-formed input 2514
  (four digits, but 2025 has 13 cycles) fails the round-trip verification and raises the
  very error of a malformed input such as 12a3, and the error for an ordinal outside
  [1,14] is a \<open>ValueError\<close> as well.
\<close>

theorem round_trip_failure_is_format_error:
  "length ''2514'' = 4 \<and> isdigit ''2514'' \<and>
   from_identifier ''2514'' = Inl (ValueError ''Invalid AIRAC identifier: 2514'') \<and>
   from_identifier ''12a3'' = Inl (ValueError ''Invalid AIRAC identifier: 12a3'') \<and>
   from_identifier ''2515'' = Inl (ValueError ''Invalid ordinal in AIRAC identifier: 2515'')"
  by code_simp

text \<open>
  Claim C5: every cycle that an operation returns (\<open>from_date\<close> with or without its
  argument, \<open>from_identifier\<close>, \<open>current\<close>, \<open>next\<close> and \<open>previous\<close> with or
  without their argument) has \<open>expiration_date == effective_date + 27 days\<close>, the sum
  being a date.
\<close>

theorem expiration_is_effective_plus_27:
  "(from_date d = Inr c \<longrightarrow> date_add (effective_date c) 27 = Inr (expiration_date c)) \<and>
   (from_date_opt today q = Inr c \<longrightarrow> date_add (effective_date c) 27 = Inr (expiration_date c)) \<and>
   (from_identifier s = Inr c \<longrightarrow> date_add (effective_date c) 27 = Inr (expiration_date c)) \<and>
   (current today = Inr c \<longrightarrow> date_add (effective_date c) 27 = Inr (expiration_date c)) \<and>
   (next_cycle c0 = Inr c \<longrightarrow> date_add (effective_date c) 27 = Inr (expiration_date c)) \<and>
   (previous c0 = Inr c \<longrightarrow> date_add (effective_date c) 27 = Inr (expiration_date c)) \<and>
   (next_opt today co = Inr c \<longrightarrow> date_add (effective_date c) 27 = Inr (expiration_date c)) \<and>
   (previous_opt today co = Inr c \<longrightarrow> date_add (effective_date c) 27 = Inr (expiration_date c))"
proof (intro conjI impI)
  assume "from_date d = Inr c"
  then show "date_add (effective_date c) 27 = Inr (expiration_date c)" by (rule from_date_expiration)
next
  assume "from_date_opt today q = Inr c"
  then show "date_add (effective_date c) 27 = Inr (expiration_date c)"
    unfolding from_date_opt_def by (rule from_date_expiration)
next
  assume "from_identifier s = Inr c"
  then obtain d' where "from_date d' = Inr c" using from_identifier_result by blast
  then show "date_add (effective_date c) 27 = Inr (expiration_date c)" by (rule from_date_expiration)
next
  assume "current today = Inr c"
  then show "date_add (effective_date c) 27 = Inr (expiration_date c)"
    unfolding current_def by (rule from_date_expiration)
next
  assume "next_cycle c0 = Inr c"
  then have "from_date (effective_date c0 + 28) = Inr c" by (rule next_cycle_InrD)
  then show "date_add (effective_date c) 27 = Inr (expiration_date c)" by (rule from_date_expiration)
next
  assume "previous c0 = Inr c"
  then have "from_date (effective_date c0 - 1) = Inr c" by (rule previous_cycle_InrD)
  then show "date_add (effective_date c) 27 = Inr (expiration_date c)" by (rule from_date_expiration)
next
  assume "next_opt today co = Inr c"
  then obtain c1 where "next_cycle c1 = Inr c" unfolding next_opt_def by (auto dest!: bind_eq_Inr)
  then have "from_date (effective_date c1 + 28) = Inr c" by (rule next_cycle_InrD)
  then show "date_add (effective_date c) 27 = Inr (expiration_date c)" by (rule from_date_expiration)
next
  assume "previous_opt today co = Inr c"
  then obtain c1 where "previous c1 = Inr c" unfolding previous_opt_def by (auto dest!: bind_eq_Inr)
  then have "from_date (effective_date c1 - 1) = Inr c" by (rule previous_cycle_InrD)
  then show "date_add (effective_date c) 27 = Inr (expiration_date c)" by (rule from_date_expiration)
qed

theorem expiration_is_effective_plus_27_witness:
  "from_date (ymd2ord 2025 11 25) =
     Inr \<lparr> identifier = ''2511'', year = 2025, ordinal = 11,
           effective_date = 739554, expiration_date = 739581 \<rparr> \<and>
   date_add 739554 27 = Inr 739581 \<and>
   from_identifier ''2513'' =
     Inr \<lparr> identifier = ''2513'', year = 2025, ordinal = 13,
           effective_date = 739610, expiration_date = 739637 \<rparr> \<and>
   date_add 739610 27 = Inr 739637 \<and>
   next_cycle \<lparr> identifier = ''2511'', year = 2025, ordinal = 11,
           effective_date = 739554, expiration_date = 739581 \<rparr> =
     Inr \<lparr> identifier = ''2512'', year = 2025, ordinal = 12,
           effective_date = 739582, expiration_date = 739609 \<rparr> \<and>
   date_add 739582 27 = Inr 739609 \<and>
   previous_opt (ymd2ord 2025 11 25) None =
     Inr \<lparr> identifier = ''2510'', year = 2025, ordinal = 10,
           effective_date = 739526, expiration_date = 739553 \<rparr> \<and>
   date_add 739526 27 = Inr 739553"
proof -
  let ?c11 = "\<lparr> identifier = ''2511'', year = 2025, ordinal = 11,
           effective_date = 739554, expiration_date = 739581 \<rparr>"
  let ?c13 = "\<lparr> identifier = ''2513'', year = 2025, ordinal = 13,
           effective_date = 739610, expiration_date = 739637 \<rparr>"
  let ?c12 = "\<lparr> identifier = ''2512'', year = 2025, ordinal = 12,
           effective_date = 739582, expiration_date = 739609 \<rparr>"
  let ?c10 = "\<lparr> identifier = ''2510'', year = 2025, ordinal = 10,
           effective_date = 739526, expiration_date = 739553 \<rparr>"
  have a: "from_date (ymd2ord 2025 11 25) = Inr ?c11" by code_simp
  have b: "from_identifier ''2513'' = Inr ?c13" by code_simp
  have c: "next_cycle ?c11 = Inr ?c12" by code_simp
  have d: "previous_opt (ymd2ord 2025 11 25) None = Inr ?c10" by code_simp
  note T = expiration_is_effective_plus_27
  have a': "date_add (effective_date ?c11) 27 = Inr (expiration_date ?c11)"
    using T[THEN conjunct1, rule_format, OF a] .
  have b': "date_add (effective_date ?c13) 27 = Inr (expiration_date ?c13)"
    using T[THEN conjunct2, THEN conjunct2, THEN conjunct1, rule_format, OF b] .
  have c': "date_add (effective_date ?c12) 27 = Inr (expiration_date ?c12)"
    using T[THEN conjunct2, THEN conjunct2, THEN conjunct2, THEN conjunct2, THEN conjunct1, rule_format, OF c] .
  have d': "date_add (effective_date ?c10) 27 = Inr (expiration_date ?c10)"
    using T[THEN conjunct2, THEN conjunct2, THEN conjunct2, THEN conjunct2, THEN conjunct2,
            THEN conjunct2, THEN conjunct2, rule_format, OF d] .
  show ?thesis using a b c d a' b' c' d' by simp
qed

text \<open>
  Claim C6, as the code has it.  Whenever \<open>from_date d\<close> and \<open>next\<close> of its cycle both
  return, the day after the expiration date of the first is the effective date of the
  second; both return for every date from 0001-01-18 to 9999-12-01.  For the dates of
  the last cycle that fits into \<open>datetime.date\<close> (9999-12-02 to 9999-12-29) \<open>next\<close>
  raises \<open>OverflowError\<close>.
\<close>

theorem cycles_contiguous:
  "(from_date d = Inr c \<and> next_cycle c = Inr c' \<longrightarrow>
      date_add (expiration_date c) 1 = Inr (effective_date c')) \<and>
   (ymd2ord 1 1 18 \<le> d \<and> d \<le> ymd2ord 9999 12 1 \<longrightarrow>
      (\<exists>c c'. from_date d = Inr c \<and> next_cycle c = Inr c' \<and>
               date_add (expiration_date c) 1 = Inr (effective_date c'))) \<and>
   (from_date d = Inr c \<and> ymd2ord 9999 12 1 < d \<longrightarrow> next_cycle c = Inl OverflowError)"
proof (intro conjI impI)
  assume "from_date d = Inr c \<and> next_cycle c = Inr c'"
  then show "date_add (expiration_date c) 1 = Inr (effective_date c')" using contiguous by blast
next
  assume "ymd2ord 1 1 18 \<le> d \<and> d \<le> ymd2ord 9999 12 1"
  then have r: "18 \<le> d" "d \<le> 3652029" by (simp_all add: d18 d_dec1)
  then have f: "from_date d = Inr (cycle_at d)" by (intro from_date_Inr) simp_all
  have n: "next_cycle (cycle_at d) = Inr (cycle_at (effective_date (cycle_at d) + 28))"
    using next_cycle_eq[OF f] r by simp
  from contiguous[OF f n] f n
  show "\<exists>c c'. from_date d = Inr c \<and> next_cycle c = Inr c' \<and>
               date_add (expiration_date c) 1 = Inr (effective_date c')" by blast
next
  assume "from_date d = Inr c \<and> ymd2ord 9999 12 1 < d"
  then have f: "from_date d = Inr c" and "\<not> d \<le> 3652029" by (simp_all add: d_dec1)
  then show "next_cycle c = Inl OverflowError" using next_cycle_eq[OF f] by simp
qed

theorem cycles_contiguous_witness:
  "from_date (ymd2ord 2020 1 15) =
     Inr \<lparr> identifier = ''2001'', year = 2020, ordinal = 1,
           effective_date = ymd2ord 2020 1 2, expiration_date = ymd2ord 2020 1 29 \<rparr> \<and>
   next_cycle \<lparr> identifier = ''2001'', year = 2020, ordinal = 1,
           effective_date = ymd2ord 2020 1 2, expiration_date = ymd2ord 2020 1 29 \<rparr> =
     Inr \<lparr> identifier = ''2002'', year = 2020, ordinal = 2,
           effective_date = ymd2ord 2020 1 30, expiration_date = ymd2ord 2020 2 26 \<rparr> \<and>
   date_add (ymd2ord 2020 1 29) 1 = Inr (ymd2ord 2020 1 30) \<and>
   from_date (ymd2ord 9999 12 2) =
     Inr \<lparr> identifier = ''9912'', year = 9999, ordinal = 12,
           effective_date = ymd2ord 9999 12 2, expiration_date = ymd2ord 9999 12 29 \<rparr> \<and>
   ymd2ord 9999 12 1 < ymd2ord 9999 12 2 \<and>
   next_cycle \<lparr> identifier = ''9912'', year = 9999, ordinal = 12,
           effective_date = ymd2ord 9999 12 2, expiration_date = ymd2ord 9999 12 29 \<rparr> =
     Inl OverflowError"
proof -
  let ?c1 = "\<lparr> identifier = ''2001'', year = 2020, ordinal = 1,
           effective_date = ymd2ord 2020 1 2, expiration_date = ymd2ord 2020 1 29 \<rparr>"
  let ?c2 = "\<lparr> identifier = ''2002'', year = 2020, ordinal = 2,
           effective_date = ymd2ord 2020 1 30, expiration_date = ymd2ord 2020 2 26 \<rparr>"
  let ?cl = "\<lparr> identifier = ''9912'', year = 9999, ordinal = 12,
           effective_date = ymd2ord 9999 12 2, expiration_date = ymd2ord 9999 12 29 \<rparr>"
  have a: "from_date (ymd2ord 2020 1 15) = Inr ?c1" by code_simp
  have b: "next_cycle ?c1 = Inr ?c2" by code_simp
  have c: "from_date (ymd2ord 9999 12 2) = Inr ?cl" by code_simp
  have d: "ymd2ord 9999 12 1 < ymd2ord 9999 12 2" by code_simp
  have 1: "date_add (expiration_date ?c1) 1 = Inr (effective_date ?c2)"
    using cycles_contiguous[THEN conjunct1, rule_format, OF conjI, OF a b] .
  have 2: "next_cycle ?cl = Inl OverflowError"
    using cycles_contiguous[THEN conjunct2, THEN conjunct2, rule_format, OF conjI, OF c d] .
  show ?thesis using a b c d 1 2 by simp
qed

text \<open>
  Claim C6 as stated fails for the date 9999-12-02: its cycle is returned, and \<open>next\<close>
  of that cycle raises \<open>OverflowError\<close>, so that there is no next effective date.
\<close>

theorem next_fails_in_last_cycle:
  "date_ymd 9999 12 2 = Inr (ymd2ord 9999 12 2) \<and>
   from_date (ymd2ord 9999 12 2) =
     Inr \<lparr> identifier = ''9912'', year = 9999, ordinal = 12,
           effective_date = ymd2ord 9999 12 2, expiration_date = ymd2ord 9999 12 29 \<rparr> \<and>
   next_cycle \<lparr> identifier = ''9912'', year = 9999, ordinal = 12,
           effective_date = ymd2ord 9999 12 2, expiration_date = ymd2ord 9999 12 29 \<rparr> =
     Inl OverflowError"
  by code_simp

text \<open>
  Claim C7, as the code has it.  Every cycle that the calculator produces (by
  \<open>from_identifier\<close>, \<open>current\<close>, \<open>next\<close> or \<open>previous\<close>) is a result of
  \<open>from_date\<close>.  For such a cycle \<open>c\<close>: if \<open>next c\<close> returns, it starts exactly 28
  days later and \<open>previous\<close> of it is \<open>c\<close>; if \<open>previous c\<close> returns, it starts
  exactly 28 days earlier and \<open>next\<close> of it is \<open>c\<close>.  \<open>next\<close> returns unless \<open>c\<close>
  is the last cycle that fits into \<open>datetime.date\<close> (9999-12-02 to 9999-12-29), and
  \<open>previous\<close> returns unless \<open>c\<close> is the first one (0001-01-18 to 0001-02-14); in
  these two cases they raise \<open>OverflowError\<close>.
\<close>

theorem next_previous_inverse:
  "(from_date d = Inr c \<and> next_cycle c = Inr c' \<longrightarrow>
      previous c' = Inr c \<and> effective_date c' = effective_date c + 28) \<and>
   (from_date d = Inr c \<and> previous c = Inr c' \<longrightarrow>
      next_cycle c' = Inr c \<and> effective_date c' = effective_date c - 28) \<and>
   (from_date d = Inr c \<longrightarrow>
      (next_cycle c = Inl OverflowError) = (ymd2ord 9999 12 1 < d) \<and>
      (\<exists>c'. next_cycle c = Inr c') = (d \<le> ymd2ord 9999 12 1) \<and>
      (previous c = Inl OverflowError) = (d < ymd2ord 1 2 15) \<and>
      (\<exists>c'. previous c = Inr c') = (ymd2ord 1 2 15 \<le> d)) \<and>
   (from_identifier s = Inr c \<or> current today = Inr c \<or>
    next_cycle c0 = Inr c \<or> previous c0 = Inr c \<longrightarrow> (\<exists>d. from_date d = Inr c))"
proof (intro conjI impI)
  assume "from_identifier s = Inr c \<or> current today = Inr c \<or>
    next_cycle c0 = Inr c \<or> previous c0 = Inr c"
  then show "\<exists>d. from_date d = Inr c"
    using from_identifier_result[of s c] next_cycle_InrD[of c0 c] previous_cycle_InrD[of c0 c]
    unfolding current_def by blast
next
  assume a: "from_date d = Inr c \<and> next_cycle c = Inr c'"
  then show "previous c' = Inr c" using previous_of_next by blast
  from a show "effective_date c' = effective_date c + 28" using next_cycle_fields(1) by blast
next
  assume a: "from_date d = Inr c \<and> previous c = Inr c'"
  then show "next_cycle c' = Inr c" using next_of_previous by blast
  from a show "effective_date c' = effective_date c - 28" using previous_cycle_fields(1) by blast
next
  assume f: "from_date d = Inr c"
  show "(next_cycle c = Inl OverflowError) = (ymd2ord 9999 12 1 < d)"
    using next_cycle_eq[OF f] by (auto simp: d_dec1)
  show "(\<exists>c'. next_cycle c = Inr c') = (d \<le> ymd2ord 9999 12 1)"
    using next_cycle_eq[OF f] by (auto simp: d_dec1)
  show "(previous c = Inl OverflowError) = (d < ymd2ord 1 2 15)"
    using previous_cycle_eq[OF f] by (auto simp: d_feb15)
  show "(\<exists>c'. previous c = Inr c') = (ymd2ord 1 2 15 \<le> d)"
    using previous_cycle_eq[OF f] by (auto simp: d_feb15)
qed

theorem next_previous_inverse_witness:
  "from_date (ymd2ord 2020 12 31) =
     Inr \<lparr> identifier = ''2014'', year = 2020, ordinal = 14,
           effective_date = ymd2ord 2020 12 31, expiration_date = ymd2ord 2021 1 27 \<rparr> \<and>
   next_cycle \<lparr> identifier = ''2014'', year = 2020, ordinal = 14,
           effective_date = ymd2ord 2020 12 31, expiration_date = ymd2ord 2021 1 27 \<rparr> =
     Inr \<lparr> identifier = ''2101'', year = 2021, ordinal = 1,
           effective_date = ymd2ord 2021 1 28, expiration_date = ymd2ord 2021 2 24 \<rparr> \<and>
   previous \<lparr> identifier = ''2101'', year = 2021, ordinal = 1,
           effective_date = ymd2ord 2021 1 28, expiration_date = ymd2ord 2021 2 24 \<rparr> =
     Inr \<lparr> identifier = ''2014'', year = 2020, ordinal = 14,
           effective_date = ymd2ord 2020 12 31, expiration_date = ymd2ord 2021 1 27 \<rparr> \<and>
   previous \<lparr> identifier = ''2014'', year = 2020, ordinal = 14,
           effective_date = ymd2ord 2020 12 31, expiration_date = ymd2ord 2021 1 27 \<rparr> =
     Inr \<lparr> identifier = ''2013'', year = 2020, ordinal = 13,
           effective_date = ymd2ord 2020 12 3, expiration_date = ymd2ord 2020 12 30 \<rparr> \<and>
   next_cycle \<lparr> identifier = ''2013'', year = 2020, ordinal = 13,
           effective_date = ymd2ord 2020 12 3, expiration_date = ymd2ord 2020 12 30 \<rparr> =
     Inr \<lparr> identifier = ''2014'', year = 2020, ordinal = 14,
           effective_date = ymd2ord 2020 12 31, expiration_date = ymd2ord 2021 1 27 \<rparr>"
proof -
  let ?c14 = "\<lparr> identifier = ''2014'', year = 2020, ordinal = 14,
           effective_date = ymd2ord 2020 12 31, expiration_date = ymd2ord 2021 1 27 \<rparr>"
  let ?c01 = "\<lparr> identifier = ''2101'', year = 2021, ordinal = 1,
           effective_date = ymd2ord 2021 1 28, expiration_date = ymd2ord 2021 2 24 \<rparr>"
  let ?c13 = "\<lparr> identifier = ''2013'', year = 2020, ordinal = 13,
           effective_date = ymd2ord 2020 12 3, expiration_date = ymd2ord 2020 12 30 \<rparr>"
  have a: "from_date (ymd2ord 2020 12 31) = Inr ?c14" by code_simp
  have b: "next_cycle ?c14 = Inr ?c01" by code_simp
  have c: "previous ?c14 = Inr ?c13" by code_simp
  have 1: "previous ?c01 = Inr ?c14"
    using next_previous_inverse[THEN conjunct1, rule_format, OF conjI, OF a b, THEN conjunct1] .
  have 2: "next_cycle ?c13 = Inr ?c14"
    using next_previous_inverse[THEN conjunct2, THEN conjunct1, rule_format, OF conjI, OF a c, THEN conjunct1] .
  show ?thesis using a b c 1 2 by (intro conjI)
qed

text \<open>
  Claim C7 as stated fails for the first and the last cycle that \<open>from_date\<close> produces:
  \<open>previous\<close> of the cycle of 0001-01-18 and \<open>next\<close> of the cycle of 9999-12-29 raise
  \<open>OverflowError\<close>, so neither \<open>next(previous(c))\<close> nor \<open>previous(next(c))\<close> is \<open>c\<close>
  there.
\<close>

theorem previous_fails_in_first_cycle:
  "date_ymd 1 1 18 = Inr (ymd2ord 1 1 18) \<and>
   from_date (ymd2ord 1 1 18) =
     Inr \<lparr> identifier = ''0101'', year = 1, ordinal = 1,
           effective_date = ymd2ord 1 1 18, expiration_date = ymd2ord 1 2 14 \<rparr> \<and>
   previous \<lparr> identifier = ''0101'', year = 1, ordinal = 1,
           effective_date = ymd2ord 1 1 18, expiration_date = ymd2ord 1 2 14 \<rparr> =
     Inl OverflowError \<and>
   from_date (ymd2ord 9999 12 29) =
     Inr \<lparr> identifier = ''9912'', year = 9999, ordinal = 12,
           effective_date = ymd2ord 9999 12 2, expiration_date = ymd2ord 9999 12 29 \<rparr> \<and>
   next_cycle \<lparr> identifier = ''9912'', year = 9999, ordinal = 12,
           effective_date = ymd2ord 9999 12 2, expiration_date = ymd2ord 9999 12 29 \<rparr> =
     Inl OverflowError"
  by code_simp

text \<open>
  Claim C8: when \<open>from_identifier\<close> returns a cycle, the input consists of four decimal
  digits, the year of the cycle is the two-digit year resolved by the century rule
  (\<open>1900 + year_part\<close> from 64 on, \<open>2000 + year_part\<close> below), its ordinal is the number
  written by the last two digits, and the cycle is one that \<open>from_date\<close> returns.  Hence
  an input whose ordinal does not exist in the resolved year (no cycle of \<open>from_date\<close> has
  that year and ordinal) is rejected with an error.
\<close>

theorem from_identifier_year_and_ordinal:
  "(from_identifier s = Inr c \<longrightarrow>
      length s = 4 \<and> list_all isdecimal_char s \<and>
      year c = century_year (10 * digit_value (s ! 0) + digit_value (s ! 1)) \<and>
      ordinal c = 10 * digit_value (s ! 2) + digit_value (s ! 3) \<and>
      (\<exists>d. from_date d = Inr c)) \<and>
   century_year year_part = (if year_part \<ge> 64 then 1900 + year_part else 2000 + year_part) \<and>
   (length s = 4 \<and> list_all isdecimal_char s \<and>
    \<not> (\<exists>d c'. from_date d = Inr c' \<and>
                year c' = century_year (10 * digit_value (s ! 0) + digit_value (s ! 1)) \<and>
                ordinal c' = 10 * digit_value (s ! 2) + digit_value (s ! 3)) \<longrightarrow>
      (\<exists>e. from_identifier s = Inl e))"
proof (intro conjI impI)
  assume a: "from_identifier s = Inr c"
  show "length s = 4" "list_all isdecimal_char s"
    "year c = century_year (10 * digit_value (s ! 0) + digit_value (s ! 1))"
    "ordinal c = 10 * digit_value (s ! 2) + digit_value (s ! 3)"
    by (rule from_identifier_fields[OF a])+
  show "\<exists>d. from_date d = Inr c" using a by (rule from_identifier_result)
next
  show "century_year year_part = (if year_part \<ge> 64 then 1900 + year_part else 2000 + year_part)"
    by (rule century_year_def)
next
  assume a: "length s = 4 \<and> list_all isdecimal_char s \<and>
    \<not> (\<exists>d c'. from_date d = Inr c' \<and>
                year c' = century_year (10 * digit_value (s ! 0) + digit_value (s ! 1)) \<and>
                ordinal c' = 10 * digit_value (s ! 2) + digit_value (s ! 3))"
  show "\<exists>e. from_identifier s = Inl e"
  proof (cases "from_identifier s")
    case (Inl e)
    then show ?thesis by blast
  next
    case (Inr c)
    from from_identifier_fields(3,4)[OF Inr] from_identifier_result[OF Inr] a
    show ?thesis by blast
  qed
qed

theorem from_identifier_year_and_ordinal_witness:
  "from_identifier ''6401'' =
     Inr \<lparr> identifier = ''6401'', year = 1964, ordinal = 1,
           effective_date = ymd2ord 1964 1 16, expiration_date = ymd2ord 1964 2 12 \<rparr> \<and>
   from_identifier ''6313'' =
     Inr \<lparr> identifier = ''6313'', year = 2063, ordinal = 13,
           effective_date = ymd2ord 2063 12 6, expiration_date = ymd2ord 2064 1 2 \<rparr> \<and>
   century_year 64 = 1964 \<and> century_year 63 = 2063 \<and>
   \<not> (\<exists>d c'. from_date d = Inr c' \<and> year c' = 2025 \<and> ordinal c' = 14) \<and>
   (\<exists>e. from_identifier ''2514'' = Inl e)"
proof -
  let ?a = "\<lparr> identifier = ''6401'', year = 1964, ordinal = 1,
           effective_date = ymd2ord 1964 1 16, expiration_date = ymd2ord 1964 2 12 \<rparr>"
  let ?b = "\<lparr> identifier = ''6313'', year = 2063, ordinal = 13,
           effective_date = ymd2ord 2063 12 6, expiration_date = ymd2ord 2064 1 2 \<rparr>"
  have a: "from_identifier ''6401'' = Inr ?a" by code_simp
  have b: "from_identifier ''6313'' = Inr ?b" by code_simp
  note T = from_identifier_year_and_ordinal
  have ya: "year ?a = century_year (10 * digit_value (''6401'' ! 0) + digit_value (''6401'' ! 1))"
    using T[THEN conjunct1, rule_format, OF a] by blast
  have yb: "year ?b = century_year (10 * digit_value (''6313'' ! 0) + digit_value (''6313'' ! 1))"
    using T[THEN conjunct1, rule_format, OF b] by blast
  have da: "10 * digit_value (''6401'' ! 0) + digit_value (''6401'' ! 1) = 64" by code_simp
  have db: "10 * digit_value (''6313'' ! 0) + digit_value (''6313'' ! 1) = 63" by code_simp
  have 1: "century_year 64 = 1964" using ya unfolding da by simp
  have 2: "century_year 63 = 2063" using yb unfolding db by simp
  have yk: "century_year (10 * digit_value (''2514'' ! 0) + digit_value (''2514'' ! 1)) = 2025"
    "10 * digit_value (''2514'' ! 2) + digit_value (''2514'' ! 3) = 14" by code_simp+
  have h: "length ''2514'' = 4 \<and> list_all isdecimal_char ''2514'' \<and>
    \<not> (\<exists>d c'. from_date d = Inr c' \<and>
                year c' = century_year (10 * digit_value (''2514'' ! 0) + digit_value (''2514'' ! 1)) \<and>
                ordinal c' = 10 * digit_value (''2514'' ! 2) + digit_value (''2514'' ! 3))"
    unfolding yk using no_2514 by (simp add: isdecimal_char_def)
  have 3: "\<exists>e. from_identifier ''2514'' = Inl e"
    using T[THEN conjunct2, THEN conjunct2, rule_format, OF h] .
  show ?thesis using a b 1 2 no_2514 3 by (intro conjI)
qed

text \<open>
  Claim C9: the anchor values.  The epoch 2020-01-02 starts the cycle 2001, which expires on
  2020-01-29; 2020-01-30 starts the cycle 2002; 2020-12-31 lies in (and starts) the cycle
  2014, the fourteenth and last cycle of 2020, since the next cycle is 2101.
\<close>

theorem anchor_values:
  "from_date (ymd2ord 2020 1 2) =
     Inr \<lparr> identifier = ''2001'', year = 2020, ordinal = 1,
           effective_date = ymd2ord 2020 1 2, expiration_date = ymd2ord 2020 1 29 \<rparr> \<and>
   from_date (ymd2ord 2020 1 30) =
     Inr \<lparr> identifier = ''2002'', year = 2020, ordinal = 2,
           effective_date = ymd2ord 2020 1 30, expiration_date = ymd2ord 2020 2 26 \<rparr> \<and>
   from_date (ymd2ord 2020 12 31) =
     Inr \<lparr> identifier = ''2014'', year = 2020, ordinal = 14,
           effective_date = ymd2ord 2020 12 31, expiration_date = ymd2ord 2021 1 27 \<rparr> \<and>
   from_date (ymd2ord 2021 1 28) =
     Inr \<lparr> identifier = ''2101'', year = 2021, ordinal = 1,
           effective_date = ymd2ord 2021 1 28, expiration_date = ymd2ord 2021 2 24 \<rparr> \<and>
   EPOCH = ymd2ord 2020 1 2 \<and> date_ymd 2020 1 2 = Inr EPOCH \<and>
   ymd2ord 2020 1 2 = 737426 \<and> ymd2ord 2020 1 29 = 737453 \<and>
   ymd2ord 2020 1 30 = 737454 \<and> ymd2ord 2020 12 31 = 737790"
  by code_simp

text \<open>
  Claim C10, as the code has it.  Inside the century window the round trip returns the
  cycle itself: for every date whose cycle \<open>c\<close> has a year from 1964 to 2063,
  \<open>from_identifier (identifier c)\<close> is \<open>c\<close>.  The identifier depends only on the year
  modulo 100 and on the ordinal, so cycles with the same ordinal whose years are congruent
  modulo 100 have the same identifier.  For a cycle \<open>c\<close> of a year outside the window,
  \<open>from_identifier (identifier c)\<close> never returns \<open>c\<close>: whatever it returns has a year in
  the window; and if the ordinal of \<open>c\<close> is at most 13, a cycle with the same identifier
  exists 100 years away (100 years earlier for the years after 2063, later for the years
  before 1964).
\<close>

theorem round_trip_century_window:
  "(from_date d = Inr c \<and> 1964 \<le> year c \<and> year c \<le> 2063 \<longrightarrow>
      from_identifier (identifier c) = Inr c) \<and>
   (from_date d = Inr c \<and> from_date d' = Inr c' \<and>
    year c' mod 100 = year c mod 100 \<and> ordinal c' = ordinal c \<longrightarrow>
      identifier c' = identifier c) \<and>
   (from_date d = Inr c \<and> from_identifier (identifier c) = Inr c' \<longrightarrow>
      1964 \<le> year c' \<and> year c' \<le> 2063 \<and> year c' mod 100 = year c mod 100 \<and>
      ordinal c' = ordinal c \<and> identifier c' = identifier c) \<and>
   (from_date d = Inr c \<and> (year c < 1964 \<or> 2063 < year c) \<longrightarrow>
      from_identifier (identifier c) \<noteq> Inr c) \<and>
   (from_date d = Inr c \<and> (year c < 1964 \<or> 2063 < year c) \<and> ordinal c \<le> 13 \<longrightarrow>
      (\<exists>d' c'. from_date d' = Inr c' \<and>
                year c' = (if 2063 < year c then year c - 100 else year c + 100) \<and>
                ordinal c' = ordinal c \<and> identifier c' = identifier c))"
proof (intro conjI impI)
  assume "from_date d = Inr c \<and> 1964 \<le> year c \<and> year c \<le> 2063"
  then show "from_identifier (identifier c) = Inr c" using round_trip by blast
next
  assume a: "from_date d = Inr c \<and> from_date d' = Inr c' \<and>
    year c' mod 100 = year c mod 100 \<and> ordinal c' = ordinal c"
  then have f: "from_date d = Inr c" and f': "from_date d' = Inr c'"
    and m: "year c' mod 100 = year c mod 100" and o: "ordinal c' = ordinal c" by simp_all
  have ic: "identifier c = fmt_02d (year c mod 100) @ fmt_02d (ordinal c)"
    unfolding from_date_InrD(3)[OF f] by (rule cycle_at_sel)
  have ic': "identifier c' = fmt_02d (year c' mod 100) @ fmt_02d (ordinal c')"
    unfolding from_date_InrD(3)[OF f'] by (rule cycle_at_sel)
  show "identifier c' = identifier c" unfolding ic ic' m o by (rule refl)
next
  assume a: "from_date d = Inr c \<and> from_identifier (identifier c) = Inr c'"
  then have f: "from_date d = Inr c" and g: "from_identifier (identifier c) = Inr c'" by simp_all
  note I = from_identifier_of_identifier[OF f g]
  obtain d' where f': "from_date d' = Inr c'" using from_identifier_result[OF g] by blast
  have ic: "identifier c = fmt_02d (year c mod 100) @ fmt_02d (ordinal c)"
    unfolding from_date_InrD(3)[OF f] by (rule cycle_at_sel)
  show "1964 \<le> year c'" "year c' \<le> 2063" "ordinal c' = ordinal c" "identifier c' = identifier c"
    by (rule I)+
  show "year c' mod 100 = year c mod 100"
  proof (cases "64 \<le> year c mod 100")
    case True
    then have "year c' = year c mod 100 + 19 * 100" unfolding I(1) century_year_def by simp
    then have "year c' mod 100 = (year c mod 100 + 19 * 100) mod 100" by simp
    also have "\<dots> = (year c mod 100) mod 100" by (rule mod_mult_self1)
    finally show ?thesis by simp
  next
    case False
    then have "year c' = year c mod 100 + 20 * 100" unfolding I(1) century_year_def by simp
    then have "year c' mod 100 = (year c mod 100 + 20 * 100) mod 100" by simp
    also have "\<dots> = (year c mod 100) mod 100" by (rule mod_mult_self1)
    finally show ?thesis by simp
  qed
next
  assume a: "from_date d = Inr c \<and> (year c < 1964 \<or> 2063 < year c)"
  show "from_identifier (identifier c) \<noteq> Inr c"
  proof
    assume g: "from_identifier (identifier c) = Inr c"
    from a have f: "from_date d = Inr c" by simp
    from from_identifier_of_identifier(3,4)[OF f g] a show False by simp
  qed
next
  assume a: "from_date d = Inr c \<and> (year c < 1964 \<or> 2063 < year c) \<and> ordinal c \<le> 13"
  then have f: "from_date d = Inr c" and w: "year c < 1964 \<or> 2063 < year c" and o: "ordinal c \<le> 13"
    by simp_all
  note R = from_date_year_rule[OF f]
  note Y = from_date_year_range[OF f]
  define y' where "y' = (if 2063 < year c then year c - 100 else year c + 100)"
  have y': "1 \<le> y'" "y' \<le> 9998" unfolding y'_def using w Y by auto
  from cycle_exists[OF y' R(4) o] obtain c' where
    c': "from_date (first_cycle_start y' + 28 * (ordinal c - 1)) = Inr c'" "year c' = y'"
        "ordinal c' = ordinal c" by blast
  have "year c' mod 100 = year c mod 100"
  proof (cases "2063 < year c")
    case True
    then have "year c = year c' + 1 * 100" unfolding c'(2) y'_def by simp
    then have "year c mod 100 = (year c' + 1 * 100) mod 100" by simp
    also have "\<dots> = year c' mod 100" by (rule mod_mult_self1)
    finally show ?thesis by simp
  next
    case False
    then have "year c' = year c + 1 * 100" unfolding c'(2) y'_def by simp
    then have "year c' mod 100 = (year c + 1 * 100) mod 100" by simp
    also have "\<dots> = year c mod 100" by (rule mod_mult_self1)
    finally show ?thesis by simp
  qed
  moreover have ic: "identifier c = fmt_02d (year c mod 100) @ fmt_02d (ordinal c)"
    unfolding from_date_InrD(3)[OF f] by (rule cycle_at_sel)
  moreover have ic': "identifier c' = fmt_02d (year c' mod 100) @ fmt_02d (ordinal c')"
    unfolding from_date_InrD(3)[OF c'(1)] by (rule cycle_at_sel)
  ultimately have "identifier c' = identifier c" using c'(3) by simp
  with c' show "\<exists>d' c'. from_date d' = Inr c' \<and>
                year c' = (if 2063 < year c then year c - 100 else year c + 100) \<and>
                ordinal c' = ordinal c \<and> identifier c' = identifier c"
    unfolding y'_def by blast
qed

theorem round_trip_century_window_witness:
  "from_date (ymd2ord 2063 12 31) =
     Inr \<lparr> identifier = ''6313'', year = 2063, ordinal = 13,
           effective_date = ymd2ord 2063 12 6, expiration_date = ymd2ord 2064 1 2 \<rparr> \<and>
   from_identifier ''6313'' =
     Inr \<lparr> identifier = ''6313'', year = 2063, ordinal = 13,
           effective_date = ymd2ord 2063 12 6, expiration_date = ymd2ord 2064 1 2 \<rparr> \<and>
   from_date (ymd2ord 1963 12 31) =
     Inr \<lparr> identifier = ''6313'', year = 1963, ordinal = 13,
           effective_date = ymd2ord 1963 12 19, expiration_date = ymd2ord 1964 1 15 \<rparr> \<and>
   from_identifier ''6313'' \<noteq>
     Inr \<lparr> identifier = ''6313'', year = 1963, ordinal = 13,
           effective_date = ymd2ord 1963 12 19, expiration_date = ymd2ord 1964 1 15 \<rparr>"
proof -
  let ?c = "\<lparr> identifier = ''6313'', year = 2063, ordinal = 13,
           effective_date = ymd2ord 2063 12 6, expiration_date = ymd2ord 2064 1 2 \<rparr>"
  let ?b = "\<lparr> identifier = ''6313'', year = 1963, ordinal = 13,
           effective_date = ymd2ord 1963 12 19, expiration_date = ymd2ord 1964 1 15 \<rparr>"
  have a: "from_date (ymd2ord 2063 12 31) = Inr ?c" by code_simp
  have b: "from_date (ymd2ord 1963 12 31) = Inr ?b" by code_simp
  have w: "1964 \<le> year ?c \<and> year ?c \<le> 2063" by simp
  have v: "year ?b < 1964 \<or> 2063 < year ?b" by simp
  note T = round_trip_century_window
  have 1: "from_identifier (identifier ?c) = Inr ?c"
    using T[THEN conjunct1, rule_format, OF conjI, OF a w] .
  have 2: "from_identifier (identifier ?b) \<noteq> Inr ?b"
    using T[THEN conjunct2, THEN conjunct2, THEN conjunct2, THEN conjunct1, rule_format, OF conjI, OF b v] .
  show ?thesis using a b 1 2 by simp
qed

text \<open>
  Claim C10 as stated fails for the fourteenth cycle of 2065, a year outside the window:
  its identifier is 6514, the years 1965 and 2165 end with their thirteenth cycle, so no
  cycle 100 years away has that identifier, and \<open>from_identifier\<close> rejects it.
\<close>

theorem no_cycle_shares_6514:
  "from_date (ymd2ord 2065 12 31) =
     Inr \<lparr> identifier = ''6514'', year = 2065, ordinal = 14,
           effective_date = ymd2ord 2065 12 31, expiration_date = ymd2ord 2066 1 27 \<rparr> \<and>
   from_date (ymd2ord 1965 12 31) =
     Inr \<lparr> identifier = ''6513'', year = 1965, ordinal = 13,
           effective_date = ymd2ord 1965 12 16, expiration_date = ymd2ord 1966 1 12 \<rparr> \<and>
   from_date (ymd2ord 2165 12 31) =
     Inr \<lparr> identifier = ''6513'', year = 2165, ordinal = 13,
           effective_date = ymd2ord 2165 12 19, expiration_date = ymd2ord 2166 1 15 \<rparr> \<and>
   from_identifier ''6514'' = Inl (ValueError ''Invalid AIRAC identifier: 6514'')"
  by code_simp

end
